theory Spec2Isabelle
  imports
    Main
    "HOL-Library.Multiset"
    "HOL-Library.List_Lexorder"
    "HOL-Library.Char_ord"
    "HOL-Library.Product_Lexorder"
    "HOL-Library.AList"
begin

section \<open>Python strings\<close>

text \<open>
  Strings are \<^typ>\<open>string\<close>. The order on them is the lexicographic order of
  \<open>List_Lexorder\<close> over the character codes (\<open>Char_ord\<close>), which is how Python's \<^verbatim>\<open>sorted\<close> compares
  \<^verbatim>\<open>str\<close> values.
\<close>

definition endswith :: "string \<Rightarrow> string \<Rightarrow> bool" where
  "endswith s suffix \<longleftrightarrow>
     length suffix \<le> length s \<and> drop (length s - length suffix) s = suffix"

definition startswith :: "string \<Rightarrow> string \<Rightarrow> bool" where
  "startswith s p \<longleftrightarrow> take (length p) s = p"

text \<open>\<^verbatim>\<open>s.rsplit(c, 1)\<close>: the parts before and after the last \<open>c\<close>; \<open>None\<close> when
  \<open>s\<close> has no \<open>c\<close> (Python then returns a single part).\<close>

fun rsplit_once :: "char \<Rightarrow> string \<Rightarrow> (string \<times> string) option" where
  "rsplit_once c [] = None"
| "rsplit_once c (x # xs) =
     (case rsplit_once c xs of
        Some (a, b) \<Rightarrow> Some (x # a, b)
      | None \<Rightarrow> (if x = c then Some ([], xs) else None))"

text \<open>\<^verbatim>\<open>sep.join(parts)\<close>.\<close>

fun join :: "string \<Rightarrow> string list \<Rightarrow> string" where
  "join sep [] = []"
| "join sep [x] = x"
| "join sep (x # y # ys) = x @ sep @ join sep (y # ys)"

text \<open>\<^verbatim>\<open>s.rstrip(c)\<close>.\<close>

definition rstrip :: "char \<Rightarrow> string \<Rightarrow> string" where
  "rstrip c s = rev (dropWhile (\<lambda>x. x = c) (rev s))"

text \<open>\<^verbatim>\<open>s.split(c)\<close>: the parts between the occurrences of \<open>c\<close>, empty parts
  included; a string without \<open>c\<close> is its own single part.\<close>

fun split_on :: "char \<Rightarrow> string \<Rightarrow> string list" where
  "split_on c [] = [[]]"
| "split_on c (x # xs) =
     (if x = c then [] # split_on c xs
      else (case split_on c xs of [] \<Rightarrow> [[x]] | p # ps \<Rightarrow> (x # p) # ps))"

text \<open>\<^verbatim>\<open>s.split(c, 1)\<close> for a string that holds \<open>c\<close>: what stands before the first
  \<open>c\<close> and what stands after it.\<close>

definition split_first :: "char \<Rightarrow> string \<Rightarrow> string \<times> string" where
  "split_first c s = (takeWhile (\<lambda>x. x \<noteq> c) s, drop 1 (dropWhile (\<lambda>x. x \<noteq> c) s))"

text \<open>Decimal rendering of a natural number, most significant digit first.\<close>

fun show_nat :: "nat \<Rightarrow> string" where
  "show_nat n =
     (if n < 10 then [char_of (48 + n)]
      else show_nat (n div 10) @ [char_of (48 + n mod 10)])"

declare show_nat.simps [simp del]

text \<open>\<^verbatim>\<open>str(i)\<close> for a Python integer.\<close>

definition str_int :: "int \<Rightarrow> string" where
  "str_int i = (if i < 0 then CHR ''-'' # show_nat (nat (- i)) else show_nat (nat i))"

definition zfill :: "nat \<Rightarrow> string \<Rightarrow> string" where
  "zfill width s = replicate (width - length s) CHR ''0'' @ s"

text \<open>The format specification \<^verbatim>\<open>{i:05d}\<close>: at least five characters, the sign
  first, zeros between the sign and the digits.\<close>

definition format_05d :: "int \<Rightarrow> string" where
  "format_05d i =
     (if i < 0 then CHR ''-'' # zfill 4 (show_nat (nat (- i))) else zfill 5 (show_nat (nat i)))"

section \<open>Data frames\<close>

text \<open>
  A cell is an integer, a string or a missing value (\<^verbatim>\<open>NaN\<close>/\<^verbatim>\<open>None\<close>). Floating
  point cells are left out. A \<^verbatim>\<open>DataFrame\<close> written with \<^verbatim>\<open>index=False\<close> is its
  ordered column names and its rows in order.
\<close>

datatype cell = IntV int | StrV string | NullV

record table =
  columns :: "string list"
  rows :: "cell list list"

definition wf_table :: "table \<Rightarrow> bool" where
  "wf_table df \<longleftrightarrow>
     distinct (columns df) \<and> list_all (\<lambda>r. length r = length (columns df)) (rows df)"

text \<open>
  The order in which pandas sorts group keys: integers by value, strings by code
  points, integers before strings when a column mixes them; missing values last.
\<close>

fun cell_rank :: "cell \<Rightarrow> nat \<times> int \<times> string" where
  "cell_rank (IntV i) = (0, i, [])"
| "cell_rank (StrV s) = (1, 0, s)"
| "cell_rank NullV = (2, 0, [])"

instantiation cell :: linorder
begin

definition less_eq_cell :: "cell \<Rightarrow> cell \<Rightarrow> bool" where
  "less_eq_cell x y \<longleftrightarrow> cell_rank x \<le> cell_rank y"

definition less_cell :: "cell \<Rightarrow> cell \<Rightarrow> bool" where
  "less_cell x y \<longleftrightarrow> cell_rank x < cell_rank y"

instance
proof
  fix x y z :: cell
  show "x < y \<longleftrightarrow> x \<le> y \<and> \<not> y \<le> x"
    unfolding less_eq_cell_def less_cell_def by auto
  show "x \<le> x"
    unfolding less_eq_cell_def by simp
  show "x \<le> y \<Longrightarrow> y \<le> z \<Longrightarrow> x \<le> z"
    unfolding less_eq_cell_def by (rule order_trans)
  show "x \<le> y \<Longrightarrow> y \<le> x \<Longrightarrow> x = y"
    unfolding less_eq_cell_def by (cases x; cases y) auto
  show "x \<le> y \<or> y \<le> x"
    unfolding less_eq_cell_def by (rule linear)
qed

end

text \<open>\<^verbatim>\<open>f"{val}"\<close> for a cell.\<close>

fun str_cell :: "cell \<Rightarrow> string" where
  "str_cell (IntV i) = str_int i"
| "str_cell (StrV s) = s"
| "str_cell NullV = ''nan''"

text \<open>\<^verbatim>\<open>len(df)\<close>.\<close>

definition len :: "table \<Rightarrow> int" where
  "len df = int (length (rows df))"

text \<open>A bound of a Python slice over a sequence of length \<open>n\<close>: a negative bound
  counts from the end, and every bound is clamped to \<open>[0, n]\<close>.\<close>

definition slice_bound :: "int \<Rightarrow> nat \<Rightarrow> nat" where
  "slice_bound i n = (if i < 0 then nat (max (i + int n) 0) else min (nat i) n)"

text \<open>\<^verbatim>\<open>df.iloc[start:stop]\<close>.\<close>

definition iloc :: "table \<Rightarrow> int \<Rightarrow> int \<Rightarrow> table" where
  "iloc df start stop =
     (let n = length (rows df); a = slice_bound start n; b = slice_bound stop n
      in df\<lparr>rows := take (b - a) (drop a (rows df))\<rparr>)"

text \<open>The value of column \<open>c\<close> in row \<open>r\<close> of a frame with columns \<open>cols\<close>; a
  column the frame does not have reads as missing.\<close>

definition cell_at :: "string list \<Rightarrow> cell list \<Rightarrow> string \<Rightarrow> cell" where
  "cell_at cols r c = (case map_of (zip cols r) c of Some v \<Rightarrow> v | None \<Rightarrow> NullV)"

definition key_of :: "table \<Rightarrow> string list \<Rightarrow> cell list \<Rightarrow> cell list" where
  "key_of df by r = map (cell_at (columns df) r) by"

section \<open>Errors\<close>

text \<open>
  The exceptions the code can raise. \<open>ValueError\<close> is what the writer raises for a bad
  argument (the specification's ValidationError); \<open>ResourceNotFoundError\<close> and
  \<open>ResourceExistsError\<close> are the storage client's answers for a missing blob and for an
  upload without overwrite onto an existing blob.
\<close>

datatype error =
    ValueError string
  | KeyError string
  | ZeroDivisionError
  | ResourceNotFoundError string
  | ResourceExistsError string

section \<open>pandas operations\<close>

text \<open>\<^verbatim>\<open>df.drop(columns=cols)\<close>: a name that is not a column raises \<^verbatim>\<open>KeyError\<close>.\<close>

definition without_columns :: "table \<Rightarrow> string list \<Rightarrow> table" where
  "without_columns df cols =
     \<lparr>columns = filter (\<lambda>c. c \<notin> set cols) (columns df),
      rows = map (\<lambda>r. map snd (filter (\<lambda>(c, v). c \<notin> set cols) (zip (columns df) r)))
               (rows df)\<rparr>"

definition drop_columns :: "table \<Rightarrow> string list \<Rightarrow> error + table" where
  "drop_columns df cols =
     (case find (\<lambda>c. c \<notin> set (columns df)) cols of
        Some c \<Rightarrow> Inl (KeyError c)
      | None \<Rightarrow> Inr (without_columns df cols))"

text \<open>
  \<^verbatim>\<open>df.groupby(by)\<close>, iterated. pandas' defaults are \<^verbatim>\<open>sort=True\<close> and
  \<^verbatim>\<open>dropna=True\<close>: a row with a missing value in a key column belongs to no group,
  and the groups come in ascending order of their keys. Each group keeps every column
  and the original order of its rows. An empty list of keys raises \<^verbatim>\<open>ValueError\<close>,
  an unknown key \<^verbatim>\<open>KeyError\<close>.
\<close>

definition keyed_rows :: "table \<Rightarrow> string list \<Rightarrow> cell list list" where
  "keyed_rows df by = filter (\<lambda>r. NullV \<notin> set (key_of df by r)) (rows df)"

definition group_keys :: "table \<Rightarrow> string list \<Rightarrow> cell list list" where
  "group_keys df by = sort (remdups (map (key_of df by) (keyed_rows df by)))"

definition group_frame :: "table \<Rightarrow> string list \<Rightarrow> cell list \<Rightarrow> table" where
  "group_frame df by k = df\<lparr>rows := filter (\<lambda>r. key_of df by r = k) (keyed_rows df by)\<rparr>"

definition groupby :: "table \<Rightarrow> string list \<Rightarrow> error + (cell list \<times> table) list" where
  "groupby df by =
     (if by = [] then Inl (ValueError ''No group keys passed!'')
      else case find (\<lambda>c. c \<notin> set (columns df)) by of
        Some c \<Rightarrow> Inl (KeyError c)
      | None \<Rightarrow> Inr (map (\<lambda>k. (k, group_frame df by k)) (group_keys df by)))"

text \<open>
  \<^verbatim>\<open>pd.concat(dfs, ignore_index=True)\<close>: the columns are the union of the frames'
  columns in order of first appearance, the rows are the frames' rows in order, a
  column a frame lacks is filled with missing values. An empty list raises
  \<^verbatim>\<open>ValueError\<close>.
\<close>

definition union_columns :: "table list \<Rightarrow> string list" where
  "union_columns dfs =
     foldl (\<lambda>acc c. if c \<in> set acc then acc else acc @ [c]) [] (concat (map columns dfs))"

definition reindex_rows :: "string list \<Rightarrow> table \<Rightarrow> cell list list" where
  "reindex_rows cols df = map (\<lambda>r. map (cell_at (columns df) r) cols) (rows df)"

definition pd_concat :: "table list \<Rightarrow> error + table" where
  "pd_concat dfs =
     (if dfs = [] then Inl (ValueError ''No objects to concatenate'')
      else Inr \<lparr>columns = union_columns dfs,
                rows = concat (map (reindex_rows (union_columns dfs)) dfs)\<rparr>)"

text \<open>\<^verbatim>\<open>df[key] = value\<close> for a string \<open>value\<close>: every row gets the value; an
  existing column is overwritten where it stands, a new column comes last.\<close>

definition set_column :: "table \<Rightarrow> string \<Rightarrow> string \<Rightarrow> table" where
  "set_column df key value =
     (if key \<in> set (columns df)
      then df\<lparr>rows := map (\<lambda>r. map (\<lambda>(c, v). if c = key then StrV value else v)
                                   (zip (columns df) r)) (rows df)\<rparr>
      else \<lparr>columns = columns df @ [key], rows = map (\<lambda>r. r @ [StrV value]) (rows df)\<rparr>)"

text \<open>\<^verbatim>\<open>range(n)\<close>.\<close>

definition py_range :: "int \<Rightarrow> int list" where
  "py_range n = map int [0..<nat n]"

section \<open>The storage client and the Parquet codec\<close>

text \<open>
  The container: its blobs in the order they were created, and the log of the client
  calls made so far. \<open>'b\<close> is the type of a blob's bytes.
\<close>

datatype 'b call =
    Upload string 'b bool
  | Download string
  | Exists string
  | ListBlobs string

record 'b world =
  account :: string
  container :: string
  blobs :: "(string \<times> 'b) list"
  calls :: "'b call list"

text \<open>
  Modelled from the spec: the Object Store Client (class \<^verbatim>\<open>AzureChunkStorageClient\<close> of
  the module \<^verbatim>\<open>azure_chunk_storage_utils\<close>), with the contract
  \<^verbatim>\<open>upload(bytes, path, content_type, overwrite) -> url\<close>,
  \<^verbatim>\<open>download(path) -> bytes\<close> (fails NotFound), \<^verbatim>\<open>exists(path) -> bool\<close>,
  \<^verbatim>\<open>list(prefix) -> sequence of path strings\<close>. The URL has the shape the sibling
  client \<^verbatim>\<open>AzureBlobStorageClient.upload_blob\<close> builds. The store is reliable: no
  call fails for transport reasons. An upload with \<^verbatim>\<open>overwrite=False\<close> onto an
  existing blob is refused.
\<close>

definition get_blob_url :: "'b world \<Rightarrow> string \<Rightarrow> string" where
  "get_blob_url w blob_name =
     ''https://'' @ account w @ ''.blob.core.windows.net/'' @ container w @ ''/'' @ blob_name"

definition upload_file :: "'b \<Rightarrow> string \<Rightarrow> bool \<Rightarrow> 'b world \<Rightarrow> (error + string) \<times> 'b world" where
  "upload_file data blob_name overwrite w =
     (let w' = w\<lparr>calls := calls w @ [Upload blob_name data overwrite]\<rparr>
      in if \<not> overwrite \<and> map_of (blobs w) blob_name \<noteq> None
         then (Inl (ResourceExistsError blob_name), w')
         else (Inr (get_blob_url w blob_name),
               w'\<lparr>blobs := AList.update blob_name data (blobs w)\<rparr>))"

definition download_blob :: "string \<Rightarrow> 'b world \<Rightarrow> (error + 'b) \<times> 'b world" where
  "download_blob blob_name w =
     (let w' = w\<lparr>calls := calls w @ [Download blob_name]\<rparr>
      in case map_of (blobs w) blob_name of
           None \<Rightarrow> (Inl (ResourceNotFoundError blob_name), w')
         | Some data \<Rightarrow> (Inr data, w'))"

definition blob_exists :: "string \<Rightarrow> 'b world \<Rightarrow> bool \<times> 'b world" where
  "blob_exists blob_name w =
     (map_of (blobs w) blob_name \<noteq> None, w\<lparr>calls := calls w @ [Exists blob_name]\<rparr>)"

definition list_blobs :: "string \<Rightarrow> 'b world \<Rightarrow> string list \<times> 'b world" where
  "list_blobs name_starts_with w =
     (filter (\<lambda>b. startswith b name_starts_with) (map fst (blobs w)),
      w\<lparr>calls := calls w @ [ListBlobs name_starts_with]\<rparr>)"

text \<open>
  What the writer takes from its environment: the Parquet codec of pandas
  (\<^verbatim>\<open>df.to_parquet(file, engine, compression, index=False)\<close> and
  \<^verbatim>\<open>pd.read_parquet(bytes, engine)\<close>) and the clock, already formatted by
  \<^verbatim>\<open>strftime('%Y%m%d_%H%M%S')\<close>. The codec is a parameter: nothing is assumed of it
  but what a theorem states.
\<close>

record 'b env =
  df_to_parquet :: "string \<Rightarrow> string \<Rightarrow> table \<Rightarrow> 'b"
  pd_read_parquet :: "string \<Rightarrow> 'b \<Rightarrow> error + table"
  strftime_now :: string


section \<open>PandasAzureWriter\<close>

subsection \<open>write_parquet\<close>

definition ensure_extension :: "string \<Rightarrow> string" where
  "ensure_extension blob_name =
     (if \<not> endswith blob_name ''.parquet'' then blob_name @ ''.parquet'' else blob_name)"

definition add_timestamp :: "string \<Rightarrow> string \<Rightarrow> error + string" where
  "add_timestamp timestamp blob_name =
     (case rsplit_once CHR ''.'' blob_name of
        None \<Rightarrow> Inl (ValueError ''not enough values to unpack'')
      | Some (name, ext) \<Rightarrow> Inr (name @ ''_'' @ timestamp @ ''.'' @ ext))"

text \<open>The blob a flat write targets.\<close>

definition final_blob_name :: "'b env \<Rightarrow> string \<Rightarrow> bool \<Rightarrow> error + string" where
  "final_blob_name env blob_name include_timestamp =
     (if include_timestamp then add_timestamp (strftime_now env) (ensure_extension blob_name)
      else Inr (ensure_extension blob_name))"

definition write_parquet ::
  "'b env \<Rightarrow> table \<Rightarrow> string \<Rightarrow> string \<Rightarrow> bool \<Rightarrow> bool \<Rightarrow> string \<Rightarrow> 'b world
   \<Rightarrow> (error + string) \<times> 'b world" where
  "write_parquet env df blob_name compression overwrite include_timestamp engine w =
     (case final_blob_name env blob_name include_timestamp of
        Inl e \<Rightarrow> (Inl e, w)
      | Inr blob_name' \<Rightarrow>
          upload_file (df_to_parquet env engine compression df) blob_name' overwrite w)"

subsection \<open>read_parquet\<close>

text \<open>\<^verbatim>\<open>columns\<close> and \<^verbatim>\<open>filters\<close> are left at their default \<^verbatim>\<open>None\<close>, as every
  caller in the class leaves them.\<close>

definition read_parquet ::
  "'b env \<Rightarrow> string \<Rightarrow> string \<Rightarrow> 'b world \<Rightarrow> (error + table) \<times> 'b world" where
  "read_parquet env blob_name engine w =
     (case download_blob blob_name w of
        (Inl e, w') \<Rightarrow> (Inl e, w')
      | (Inr blob_data, w') \<Rightarrow> (pd_read_parquet env engine blob_data, w'))"

subsection \<open>write_parquet_partitioned\<close>

fun ensure_partition_cols :: "table \<Rightarrow> string list \<Rightarrow> error + unit" where
  "ensure_partition_cols df [] = Inr ()"
| "ensure_partition_cols df (col # cols) =
     (if col \<notin> set (columns df)
      then Inl (ValueError (''Partition column '' @ [CHR 0x27] @ col @ [CHR 0x27]
                            @ '' not found in DataFrame''))
      else ensure_partition_cols df cols)"

text \<open>
  The blob of a group. pandas hands the key of a group as a tuple (as a bare value for
  a single key in older versions); both branches of the source build the same parts.
\<close>

definition partition_blob_name :: "string \<Rightarrow> string list \<Rightarrow> cell list \<Rightarrow> string" where
  "partition_blob_name base_blob_path partition_cols partition_values =
     base_blob_path @ ''/''
       @ join ''/'' (map (\<lambda>(col, val). col @ ''='' @ str_cell val)
                        (zip partition_cols partition_values))
       @ ''/data.parquet''"

fun write_partitions ::
  "'b env \<Rightarrow> string \<Rightarrow> string list \<Rightarrow> string \<Rightarrow> bool \<Rightarrow> string
   \<Rightarrow> (cell list \<times> table) list \<Rightarrow> string list \<Rightarrow> 'b world
   \<Rightarrow> (error + string list) \<times> 'b world" where
  "write_partitions env base_blob_path partition_cols compression overwrite engine [] urls w =
     (Inr urls, w)"
| "write_partitions env base_blob_path partition_cols compression overwrite engine
     ((partition_values, group_df) # grouped) urls w =
     (case drop_columns group_df partition_cols of
        Inl e \<Rightarrow> (Inl e, w)
      | Inr data_to_write \<Rightarrow>
          (case write_parquet env data_to_write
                  (partition_blob_name base_blob_path partition_cols partition_values)
                  compression overwrite False engine w of
             (Inl e, w') \<Rightarrow> (Inl e, w')
           | (Inr url, w') \<Rightarrow>
               write_partitions env base_blob_path partition_cols compression overwrite engine
                 grouped (urls @ [url]) w'))"

definition write_parquet_partitioned ::
  "'b env \<Rightarrow> table \<Rightarrow> string \<Rightarrow> string list \<Rightarrow> string \<Rightarrow> bool \<Rightarrow> string \<Rightarrow> 'b world
   \<Rightarrow> (error + string list) \<times> 'b world" where
  "write_parquet_partitioned env df base_blob_path partition_cols compression overwrite engine w =
     (case ensure_partition_cols df partition_cols of
        Inl e \<Rightarrow> (Inl e, w)
      | Inr _ \<Rightarrow>
          (case groupby df partition_cols of
             Inl e \<Rightarrow> (Inl e, w)
           | Inr grouped \<Rightarrow>
               write_partitions env base_blob_path partition_cols compression overwrite engine
                 grouped [] w))"

subsection \<open>write_parquet_chunked\<close>

definition chunk_blob_name :: "string \<Rightarrow> int \<Rightarrow> string" where
  "chunk_blob_name base_blob_path i = base_blob_path @ ''/chunk_'' @ format_05d i @ ''.parquet''"

definition chunk_df :: "table \<Rightarrow> int \<Rightarrow> int \<Rightarrow> table" where
  "chunk_df df chunk_size i =
     (let start_idx = i * chunk_size;
          end_idx = min ((i + 1) * chunk_size) (len df)
      in iloc df start_idx end_idx)"

fun write_chunks ::
  "'b env \<Rightarrow> table \<Rightarrow> string \<Rightarrow> int \<Rightarrow> string \<Rightarrow> bool \<Rightarrow> string
   \<Rightarrow> int list \<Rightarrow> string list \<Rightarrow> 'b world \<Rightarrow> (error + string list) \<times> 'b world" where
  "write_chunks env df base_blob_path chunk_size compression overwrite engine [] urls w =
     (Inr urls, w)"
| "write_chunks env df base_blob_path chunk_size compression overwrite engine (i # is) urls w =
     (case write_parquet env (chunk_df df chunk_size i) (chunk_blob_name base_blob_path i)
             compression overwrite False engine w of
        (Inl e, w') \<Rightarrow> (Inl e, w')
      | (Inr url, w') \<Rightarrow>
          write_chunks env df base_blob_path chunk_size compression overwrite engine
            is (urls @ [url]) w')"

text \<open>The ceiling division of the source is Python's floor division \<^verbatim>\<open>//\<close>, which
  raises \<^verbatim>\<open>ZeroDivisionError\<close> on a zero divisor and rounds towards minus infinity,
  as \<open>div\<close> on \<^typ>\<open>int\<close> does.\<close>

definition num_chunks :: "table \<Rightarrow> int \<Rightarrow> int" where
  "num_chunks df chunk_size = (len df + chunk_size - 1) div chunk_size"

definition write_parquet_chunked ::
  "'b env \<Rightarrow> table \<Rightarrow> string \<Rightarrow> int \<Rightarrow> string \<Rightarrow> bool \<Rightarrow> string \<Rightarrow> 'b world
   \<Rightarrow> (error + string list) \<times> 'b world" where
  "write_parquet_chunked env df base_blob_path chunk_size compression overwrite engine w =
     (if chunk_size = 0 then (Inl ZeroDivisionError, w)
      else write_chunks env df base_blob_path chunk_size compression overwrite engine
             (py_range (num_chunks df chunk_size)) [] w)"

subsection \<open>append_parquet\<close>

text \<open>The existing blob is read with \<^verbatim>\<open>read_parquet\<close>'s default engine.\<close>

definition append_parquet ::
  "'b env \<Rightarrow> table \<Rightarrow> string \<Rightarrow> string \<Rightarrow> string \<Rightarrow> 'b world
   \<Rightarrow> (error + string) \<times> 'b world" where
  "append_parquet env df blob_name compression engine w =
     (case blob_exists blob_name w of
        (True, w1) \<Rightarrow>
          (case read_parquet env blob_name ''pyarrow'' w1 of
             (Inl e, w2) \<Rightarrow> (Inl e, w2)
           | (Inr existing_df, w2) \<Rightarrow>
               (case pd_concat [existing_df, df] of
                  Inl e \<Rightarrow> (Inl e, w2)
                | Inr combined_df \<Rightarrow>
                    write_parquet env combined_df blob_name compression True False engine w2))
      | (False, w1) \<Rightarrow> write_parquet env df blob_name compression True False engine w1)"

subsection \<open>read_parquet_chunked\<close>



subsection \<open>read_parquet_partitioned\<close>

text \<open>The partition columns of a blob, taken from its path: every part of the path that
  holds \<^verbatim>\<open>=\<close> sets the column named before the first \<^verbatim>\<open>=\<close> to the string after
  it.\<close>

definition add_partition_columns :: "string \<Rightarrow> table \<Rightarrow> table" where
  "add_partition_columns blob df =
     foldl (\<lambda>df part. if CHR ''='' \<in> set part
                       then (case split_first CHR ''='' part of
                               (key, value) \<Rightarrow> set_column df key value)
                       else df)
       df (split_on CHR ''/'' blob)"

text \<open>\<^verbatim>\<open>partition_filter\<close> is the items of the dictionary in their order, or
  \<open>None\<close>.\<close>

definition search_prefix :: "string \<Rightarrow> (string \<times> string) list option \<Rightarrow> string" where
  "search_prefix base_blob_path partition_filter =
     (case partition_filter of
        None \<Rightarrow> rstrip CHR ''/'' base_blob_path
      | Some items \<Rightarrow>
          foldl (\<lambda>prefix (key, value). prefix @ ''/'' @ key @ ''='' @ value)
            (rstrip CHR ''/'' base_blob_path) items)"

fun read_partitions ::
  "'b env \<Rightarrow> string list \<Rightarrow> table list \<Rightarrow> 'b world \<Rightarrow> (error + table list) \<times> 'b world" where
  "read_partitions env [] dfs w = (Inr dfs, w)"
| "read_partitions env (blob # parquet_blobs) dfs w =
     (case read_parquet env blob ''pyarrow'' w of
        (Inl e, w') \<Rightarrow> (Inl e, w')
      | (Inr df, w') \<Rightarrow>
          read_partitions env parquet_blobs (dfs @ [add_partition_columns blob df]) w')"

definition read_parquet_partitioned ::
  "'b env \<Rightarrow> string \<Rightarrow> (string \<times> string) list option \<Rightarrow> 'b world
   \<Rightarrow> (error + table) \<times> 'b world" where
  "read_parquet_partitioned env base_blob_path partition_filter w =
     (case list_blobs (search_prefix base_blob_path partition_filter) w of
        (all_blobs, w1) \<Rightarrow>
          (let parquet_blobs = filter (\<lambda>b. endswith b ''.parquet'') all_blobs
           in if parquet_blobs = []
              then (Inl (ValueError (''No parquet files found at: ''
                                     @ search_prefix base_blob_path partition_filter)), w1)
              else (case read_partitions env parquet_blobs [] w1 of
                      (Inl e, w2) \<Rightarrow> (Inl e, w2)
                    | (Inr dfs, w2) \<Rightarrow> (pd_concat dfs, w2))))"

section \<open>A codec to run the writer on\<close>

text \<open>The bytes of a table are the table with the engine and the compression it was
  written with; the clock stands still.\<close>

definition plain_env :: "(string \<times> string \<times> table) env" where
  "plain_env =
     \<lparr>df_to_parquet = (\<lambda>engine compression df. (engine, compression, df)),
      pd_read_parquet = (\<lambda>engine data. Inr (snd (snd data))),
      strftime_now = ''20250101_120000''\<rparr>"

definition empty_world :: "(string \<times> string \<times> table) world" where
  "empty_world = \<lparr>account = ''acct'', container = ''data'', blobs = [], calls = []\<rparr>"

text \<open>The same codec, but, as \<^verbatim>\<open>to_parquet(index=False)\<close> does, it keeps no row of a
  frame that has no column.\<close>

definition index_free_env :: "(string \<times> string \<times> table) env" where
  "index_free_env =
     \<lparr>df_to_parquet = (\<lambda>engine compression df.
         (engine, compression, if columns df = [] then df\<lparr>rows := []\<rparr> else df)),
      pd_read_parquet = (\<lambda>engine data. Inr (snd (snd data))),
      strftime_now = ''20250101_120000''\<rparr>"

text \<open>A world where \<^verbatim>\<open>out/x.parquet\<close> holds a table of two rows.\<close>

definition w_stale :: "(string \<times> string \<times> table) world" where
  "w_stale = empty_world\<lparr>blobs := [(''out/x.parquet'', ''pyarrow'', ''snappy'',
                                      \<lparr>columns = [''v''], rows = [[IntV 1], [IntV 2]]\<rparr>)]\<rparr>"

section \<open>Example tables\<close>

text \<open>The partition example of the specification with its rows in another order, and a
  table with a missing partition value.\<close>

definition T3 :: table where
  "T3 = \<lparr>columns = [''year'', ''month'', ''v''],
         rows = [[IntV 2024, IntV 1, IntV 30], [IntV 2023, IntV 1, IntV 10],
                 [IntV 2023, IntV 2, IntV 20]]\<rparr>"

definition T_null :: table where
  "T_null = \<lparr>columns = [''year'', ''v''], rows = [[NullV, IntV 1]]\<rparr>"

text \<open>A table whose keys \<open>1\<close> and \<open>'1'\<close> render alike, a table whose only column is the
  partition column, and a table with a partition value that holds \<^verbatim>\<open>/\<close>.\<close>

definition T_mix :: table where
  "T_mix = \<lparr>columns = [''k'', ''v''], rows = [[IntV 1, IntV 10], [StrV ''1'', IntV 20]]\<rparr>"

definition T_year :: table where
  "T_year = \<lparr>columns = [''year''], rows = [[IntV 2023], [IntV 2024]]\<rparr>"

definition T_slash :: table where
  "T_slash = \<lparr>columns = [''k'', ''v''], rows = [[StrV ''a/b'', IntV 1]]\<rparr>"


text \<open>The chunk example of the specification: 250 rows.\<close>

definition T250 :: table where
  "T250 = \<lparr>columns = [''v''], rows = map (\<lambda>i. [IntV (int i)]) [0..<250]\<rparr>"

section \<open>Reading decimal digits back\<close>

text \<open>The number a string of decimal digits denotes, to show that the rendering of
  chunk indices loses nothing.\<close>

definition read_nat :: "string \<Rightarrow> nat" where
  "read_nat s = foldl (\<lambda>a c. 10 * a + (of_char c - 48)) 0 s"

section \<open>The extension of a flat write\<close>

lemma endswith_append: "endswith (s @ suffix) suffix"
  by (simp add: endswith_def)

lemma ensure_extension_endswith: "endswith (ensure_extension p) ''.parquet''"
  unfolding ensure_extension_def using endswith_append[of p "''.parquet''"] by simp

lemma ensure_extension_fixed: "endswith p ''.parquet'' \<Longrightarrow> ensure_extension p = p"
  by (simp add: ensure_extension_def)

lemma ensure_extension_idem: "ensure_extension (ensure_extension p) = ensure_extension p"
  by (rule ensure_extension_fixed) (rule ensure_extension_endswith)

lemma final_blob_name_ensure:
  "final_blob_name env (ensure_extension p) ts = final_blob_name env p ts"
  by (simp add: final_blob_name_def ensure_extension_idem)

lemma write_parquet_ensure:
  "write_parquet env df (ensure_extension p) c ow ts e w = write_parquet env df p c ow ts e w"
  by (simp add: write_parquet_def final_blob_name_ensure)

lemma rsplit_once_none: "c \<notin> set s \<Longrightarrow> rsplit_once c s = None"
  by (induction s) auto

lemma rsplit_once_last: "c \<notin> set b \<Longrightarrow> rsplit_once c (a @ c # b) = Some (a, b)"
  by (induction a) (auto simp: rsplit_once_none)

lemma add_timestamp_parquet:
  "add_timestamp timestamp (s @ ''.parquet'') = Inr (s @ ''_'' @ timestamp @ ''.parquet'')"
proof -
  have "rsplit_once CHR ''.'' (s @ CHR ''.'' # ''parquet'') = Some (s, ''parquet'')"
    by (rule rsplit_once_last) simp
  then show ?thesis by (simp add: add_timestamp_def)
qed

text \<open>
  Claim C7, as the code has it. A flat write without timestamp targets
  \<open>ensure_extension p\<close>: when the upload is not refused, its one client call is the
  upload of the encoded table to that name, which the store then holds. A name that
  already ends in \<^verbatim>\<open>.parquet\<close> is targeted as it is, not doubled. For a base name
  \<open>x\<close> that does not itself end in \<^verbatim>\<open>.parquet\<close>, the target is \<^verbatim>\<open>x.parquet\<close>, and
  the writes to \<^verbatim>\<open>x.parquet\<close> and to \<open>x\<close> are the same write. Normalising is
  idempotent, and with a timestamp the name still ends in the extension, once.
\<close>

theorem extension_normalization:
  "final_blob_name env p False = Inr (ensure_extension p)
   \<and> (overwrite \<or> map_of (blobs w) (ensure_extension p) = None \<longrightarrow>
        write_parquet env df p c overwrite False e w
        = (Inr (get_blob_url w (ensure_extension p)),
           w\<lparr>calls := calls w @ [Upload (ensure_extension p) (df_to_parquet env e c df) overwrite],
             blobs := AList.update (ensure_extension p) (df_to_parquet env e c df) (blobs w)\<rparr>))
   \<and> (endswith p ''.parquet'' \<longrightarrow> ensure_extension p = p)
   \<and> (\<not> endswith x ''.parquet'' \<longrightarrow>
        ensure_extension x = x @ ''.parquet''
        \<and> ensure_extension (x @ ''.parquet'') = x @ ''.parquet''
        \<and> write_parquet env df (x @ ''.parquet'') c overwrite ts e w
            = write_parquet env df x c overwrite ts e w)
   \<and> ensure_extension (ensure_extension p) = ensure_extension p
   \<and> endswith (ensure_extension p) ''.parquet''
   \<and> (ensure_extension p = s @ ''.parquet'' \<longrightarrow>
        final_blob_name env p True = Inr (s @ ''_'' @ strftime_now env @ ''.parquet''))"
proof -
  have 1: "final_blob_name env p False = Inr (ensure_extension p)"
    by (simp add: final_blob_name_def)
  have 2: "write_parquet env df p c overwrite False e w
        = (Inr (get_blob_url w (ensure_extension p)),
           w\<lparr>calls := calls w @ [Upload (ensure_extension p) (df_to_parquet env e c df) overwrite],
             blobs := AList.update (ensure_extension p) (df_to_parquet env e c df) (blobs w)\<rparr>)"
    if "overwrite \<or> map_of (blobs w) (ensure_extension p) = None"
    using that by (auto simp: write_parquet_def final_blob_name_def upload_file_def)
  have 3: "ensure_extension x = x @ ''.parquet''" if "\<not> endswith x ''.parquet''"
    using that by (simp add: ensure_extension_def)
  have 4: "ensure_extension (x @ ''.parquet'') = x @ ''.parquet''"
    by (rule ensure_extension_fixed) (rule endswith_append)
  have 5: "write_parquet env df (x @ ''.parquet'') c overwrite ts e w
            = write_parquet env df x c overwrite ts e w" if "\<not> endswith x ''.parquet''"
    using write_parquet_ensure[of env df x c overwrite ts e w] 3[OF that] by simp
  have 6: "final_blob_name env p True = Inr (s @ ''_'' @ strftime_now env @ ''.parquet'')"
    if "ensure_extension p = s @ ''.parquet''"
    using that by (simp add: final_blob_name_def add_timestamp_parquet)
  show ?thesis
    using 1 2 3 4 5 6 ensure_extension_fixed ensure_extension_idem ensure_extension_endswith
    by blast
qed

theorem extension_normalization_witness:
  "\<not> endswith ''out/x'' ''.parquet'' \<and> endswith ''out/x.parquet'' ''.parquet''
   \<and> ensure_extension ''out/x.parquet'' = ''out/x.parquet''
   \<and> fst (write_parquet plain_env \<lparr>columns = [''v''], rows = [[IntV 1]]\<rparr>
             ''out/x'' ''snappy'' True False ''pyarrow'' empty_world)
       = Inr ''https://acct.blob.core.windows.net/data/out/x.parquet''
   \<and> map fst (blobs (snd (write_parquet plain_env \<lparr>columns = [''v''], rows = [[IntV 1]]\<rparr>
             ''out/x'' ''snappy'' True False ''pyarrow'' empty_world)))
       = [''out/x.parquet'']
   \<and> write_parquet plain_env \<lparr>columns = [''v''], rows = [[IntV 1]]\<rparr>
         (''out/x'' @ ''.parquet'') ''snappy'' True False ''pyarrow'' empty_world
       = write_parquet plain_env \<lparr>columns = [''v''], rows = [[IntV 1]]\<rparr>
           ''out/x'' ''snappy'' True False ''pyarrow'' empty_world
   \<and> final_blob_name plain_env ''out/x'' True = Inr ''out/x_20250101_120000.parquet''"
proof -
  let ?T = "\<lparr>columns = [''v''], rows = [[IntV 1]]\<rparr>"
  have a: "\<not> endswith ''out/x'' ''.parquet''" by (simp add: endswith_def)
  have b: "endswith ''out/x.parquet'' ''.parquet''" by (simp add: endswith_def)
  have n: "strftime_now plain_env = ''20250101_120000''" by (simp add: plain_env_def)
  note t1 = extension_normalization[where p = "''out/x''" and x = "''out/x''" and env = plain_env
        and overwrite = True and ts = False and df = ?T and c = "''snappy''" and e = "''pyarrow''"
        and w = empty_world and s = "''out/x''"]
  note t2 = extension_normalization[where p = "''out/x.parquet''" and x = "''out/x''"
        and env = plain_env and overwrite = True and ts = False and df = ?T and c = "''snappy''"
        and e = "''pyarrow''" and w = empty_world and s = "''out/x''"]
  have e1: "ensure_extension ''out/x'' = ''out/x.parquet''" using a t1 by simp
  have e2: "ensure_extension ''out/x.parquet'' = ''out/x.parquet''" using b t2 by blast
  have w1: "write_parquet plain_env ?T ''out/x'' ''snappy'' True False ''pyarrow'' empty_world
        = (Inr (get_blob_url empty_world ''out/x.parquet''),
           empty_world\<lparr>calls := calls empty_world @ [Upload ''out/x.parquet''
                 (df_to_parquet plain_env ''pyarrow'' ''snappy'' ?T) True],
             blobs := AList.update ''out/x.parquet'' (df_to_parquet plain_env ''pyarrow'' ''snappy'' ?T)
                        (blobs empty_world)\<rparr>)"
    using t1 unfolding e1 by blast
  have w2: "write_parquet plain_env ?T (''out/x'' @ ''.parquet'') ''snappy'' True False ''pyarrow'' empty_world
       = write_parquet plain_env ?T ''out/x'' ''snappy'' True False ''pyarrow'' empty_world"
    using a t1 by blast
  have f: "final_blob_name plain_env ''out/x'' True = Inr ''out/x_20250101_120000.parquet''"
    using t1 e1 by (simp add: n)
  have r1: "fst (write_parquet plain_env ?T ''out/x'' ''snappy'' True False ''pyarrow'' empty_world)
       = Inr ''https://acct.blob.core.windows.net/data/out/x.parquet''"
    unfolding w1 by (simp add: get_blob_url_def empty_world_def)
  have r2: "map fst (blobs (snd (write_parquet plain_env ?T ''out/x'' ''snappy'' True False
             ''pyarrow'' empty_world))) = [''out/x.parquet'']"
    unfolding w1 by (simp add: empty_world_def)
  show ?thesis
    using a b e2 w2 f r1 r2 by blast
qed

text \<open>
  The claim as stated fails for a base name that itself ends in the extension: for
  \<open>x = a.parquet\<close> the write to \<^verbatim>\<open>x.parquet\<close> targets \<^verbatim>\<open>a.parquet.parquet\<close> and the
  write to \<open>x\<close> targets \<^verbatim>\<open>a.parquet\<close>.
\<close>

theorem extension_in_base_name_counterexample:
  "final_blob_name plain_env (''a.parquet'' @ ''.parquet'') False = Inr ''a.parquet.parquet''
   \<and> final_blob_name plain_env ''a.parquet'' False = Inr ''a.parquet''
   \<and> map fst (blobs (snd (write_parquet plain_env \<lparr>columns = [''v''], rows = [[IntV 1]]\<rparr>
         (''a.parquet'' @ ''.parquet'') ''snappy'' True False ''pyarrow'' empty_world)))
       = [''a.parquet.parquet'']
   \<and> map fst (blobs (snd (write_parquet plain_env \<lparr>columns = [''v''], rows = [[IntV 1]]\<rparr>
         ''a.parquet'' ''snappy'' True False ''pyarrow'' empty_world)))
       = [''a.parquet'']"
  by (simp add: final_blob_name_def ensure_extension_def endswith_def write_parquet_def
      upload_file_def empty_world_def)

section \<open>Validation of the partition columns\<close>

lemma ensure_partition_cols_ok:
  "set cols \<subseteq> set (columns df) \<Longrightarrow> ensure_partition_cols df cols = Inr ()"
  by (induction cols) auto

lemma ensure_partition_cols_fail:
  "\<not> set cols \<subseteq> set (columns df) \<Longrightarrow>
   \<exists>msg. ensure_partition_cols df cols = Inl (ValueError msg)"
  by (induction cols) auto

text \<open>
  Claim C6. When some partition column is not a column of the table,
  \<open>write_parquet_partitioned\<close> raises \<open>ValueError\<close> and leaves the world as it was: no
  blob is written and no client call is made.
\<close>

theorem partition_validation:
  "\<not> set partition_cols \<subseteq> set (columns df) \<Longrightarrow>
   \<exists>msg. write_parquet_partitioned env df base_blob_path partition_cols compression overwrite
            engine w
          = (Inl (ValueError msg), w)"
  using ensure_partition_cols_fail[of partition_cols df]
  by (auto simp: write_parquet_partitioned_def)

theorem partition_validation_witness:
  "\<not> set [''yr''] \<subseteq> set (columns \<lparr>columns = [''year'', ''v''], rows = [[IntV 2023, IntV 1]]\<rparr>)
   \<and> (\<exists>msg. write_parquet_partitioned plain_env
                \<lparr>columns = [''year'', ''v''], rows = [[IntV 2023, IntV 1]]\<rparr>
                ''base'' [''yr''] ''snappy'' True ''pyarrow'' empty_world
              = (Inl (ValueError msg), empty_world))"
proof -
  have a: "\<not> set [''yr'']
             \<subseteq> set (columns \<lparr>columns = [''year'', ''v''], rows = [[IntV 2023, IntV 1]]\<rparr>)"
    by simp
  show ?thesis
    using a partition_validation[OF a, of plain_env "''base''" "''snappy''" True "''pyarrow''"
        empty_world]
    by blast
qed

section \<open>The chunk size is not validated\<close>

lemma py_range_nonpos: "n \<le> 0 \<Longrightarrow> py_range n = []"
  by (simp add: py_range_def)

lemma neg_chunk_size_no_chunks:
  assumes "chunk_size < 0" "2 \<le> n"
  shows "(n + chunk_size - 1) div chunk_size \<le> (0::int)"
proof (cases "0 \<le> n + chunk_size - 1")
  case True
  then show ?thesis using assms(1) by (simp add: div_nonneg_neg_le0)
next
  case False
  then have "n + chunk_size - 1 \<le> 0" "chunk_size < n + chunk_size - 1"
    using assms(2) by auto
  then have "(n + chunk_size - 1) div chunk_size = 0"
    by (rule div_neg_neg_trivial)
  then show ?thesis by simp
qed

text \<open>
  Claim C1, as the code has it. No \<open>ValueError\<close> guards the chunk size. A chunk size of
  zero fails in the ceiling division with \<open>ZeroDivisionError\<close>, before any client call
  and with no blob written. A negative chunk size is not rejected: on a table of two or
  more rows the call returns the empty list of URLs, with no error, no client call and
  no blob written.
\<close>

theorem chunk_size_not_validated:
  "write_parquet_chunked env df base_blob_path 0 compression overwrite engine w
     = (Inl ZeroDivisionError, w)
   \<and> (chunk_size < 0 \<and> 2 \<le> len df \<longrightarrow>
        write_parquet_chunked env df base_blob_path chunk_size compression overwrite engine w
          = (Inr [], w))"
  using neg_chunk_size_no_chunks[of chunk_size "len df"]
  by (auto simp: write_parquet_chunked_def num_chunks_def py_range_nonpos)

theorem chunk_size_not_validated_witness:
  "write_parquet_chunked plain_env \<lparr>columns = [''v''], rows = [[IntV 1], [IntV 2], [IntV 3]]\<rparr>
      ''base'' 0 ''snappy'' True ''pyarrow'' empty_world = (Inl ZeroDivisionError, empty_world)
   \<and> write_parquet_chunked plain_env \<lparr>columns = [''v''], rows = [[IntV 1], [IntV 2], [IntV 3]]\<rparr>
      ''base'' (-2) ''snappy'' True ''pyarrow'' empty_world = (Inr [], empty_world)"
  using chunk_size_not_validated[of plain_env
      "\<lparr>columns = [''v''], rows = [[IntV 1], [IntV 2], [IntV 3]]\<rparr>"
      "''base''" "''snappy''" True "''pyarrow''" empty_world "-2"]
  by (simp add: len_def)

text \<open>
  The claim as stated fails: with a chunk size of \<open>-1\<close> and a table of no rows the call
  raises nothing and writes two blobs.
\<close>

theorem negative_chunk_size_counterexample:
  "fst (write_parquet_chunked plain_env \<lparr>columns = [''v''], rows = []\<rparr>
          ''base'' (-1) ''snappy'' True ''pyarrow'' empty_world)
     = Inr [''https://acct.blob.core.windows.net/data/base/chunk_00000.parquet'',
            ''https://acct.blob.core.windows.net/data/base/chunk_00001.parquet'']
   \<and> map fst (blobs (snd (write_parquet_chunked plain_env \<lparr>columns = [''v''], rows = []\<rparr>
          ''base'' (-1) ''snappy'' True ''pyarrow'' empty_world)))
     = [''base/chunk_00000.parquet'', ''base/chunk_00001.parquet'']"
  by code_simp

section \<open>Concatenation of frames\<close>

lemma union_columns_acc:
  "set xs \<subseteq> set acc \<Longrightarrow> foldl (\<lambda>acc c. if c \<in> set acc then acc else acc @ [c]) acc xs = acc"
  by (induction xs arbitrary: acc) auto

lemma union_columns_distinct_aux:
  "distinct (acc @ xs) \<Longrightarrow> foldl (\<lambda>acc c. if c \<in> set acc then acc else acc @ [c]) acc xs = acc @ xs"
  by (induction xs arbitrary: acc) auto

lemma union_columns_same:
  assumes "distinct cols" "dfs \<noteq> []" "\<forall>df \<in> set dfs. columns df = cols"
  shows "union_columns dfs = cols"
proof -
  obtain d ds where dfs: "dfs = d # ds" using assms(2) by (cases dfs) auto
  have "set (concat (map columns ds)) \<subseteq> set cols" using assms(3) dfs by auto
  then show ?thesis
    using assms(1,3) dfs
    by (simp add: union_columns_def union_columns_distinct_aux[of "[]", simplified] union_columns_acc)
qed

lemma cell_at_self:
  "distinct cols \<Longrightarrow> length r = length cols \<Longrightarrow> map (cell_at cols r) cols = r"
proof (induction cols r rule: list_induct2')
  case (4 x xs y ys)
  have "cell_at (x # xs) (y # ys) c = cell_at xs ys c" if "c \<in> set xs" for c
    using 4(2) that by (auto simp: cell_at_def)
  then have m: "map (cell_at (x # xs) (y # ys)) xs = map (cell_at xs ys) xs"
    by simp
  have e: "cell_at (x # xs) (y # ys) x = y" by (simp add: cell_at_def)
  have "map (cell_at xs ys) xs = ys" using 4 by simp
  then show ?case by (simp add: m e)
qed auto

lemma reindex_rows_same:
  "wf_table df \<Longrightarrow> reindex_rows (columns df) df = rows df"
  by (auto simp: reindex_rows_def wf_table_def list_all_iff cell_at_self intro: map_idI)

lemma set_union_columns_aux:
  "set (foldl (\<lambda>acc c. if c \<in> set acc then acc else acc @ [c]) acc xs) = set acc \<union> set xs"
  by (induction xs arbitrary: acc) auto

lemma set_union_columns: "set (union_columns dfs) = (\<Union>df \<in> set dfs. set (columns df))"
  by (simp add: union_columns_def set_union_columns_aux)

lemma cell_at_reindexed:
  "c \<in> set cols' \<Longrightarrow> cell_at cols' (map (cell_at cols r) cols') c = cell_at cols r c"
  by (simp add: cell_at_def[of cols'] map_of_zip_map)

lemma pd_concat_two:
  "pd_concat [a, b] =
     Inr \<lparr>columns = union_columns [a, b],
          rows = reindex_rows (union_columns [a, b]) a @ reindex_rows (union_columns [a, b]) b\<rparr>"
  by (simp add: pd_concat_def)

lemma pd_concat_two_same:
  assumes "wf_table a" "wf_table b" "columns b = columns a"
  shows "pd_concat [a, b] = Inr \<lparr>columns = columns a, rows = rows a @ rows b\<rparr>"
proof -
  have u: "union_columns [a, b] = columns a"
    using assms by (intro union_columns_same) (auto simp: wf_table_def)
  have "reindex_rows (columns a) b = rows b"
    using reindex_rows_same[OF assms(2)] assms(3) by simp
  then show ?thesis
    using reindex_rows_same[OF assms(1)] by (simp add: pd_concat_two u)
qed

lemma reindex_rows_cell:
  assumes "i < length (rows a)" "c \<in> set cols'"
  shows "cell_at cols' (reindex_rows cols' a ! i) c = cell_at (columns a) (rows a ! i) c"
  using assms by (simp add: reindex_rows_def cell_at_reindexed)

lemma length_reindex_rows: "length (reindex_rows cols' a) = length (rows a)"
  by (simp add: reindex_rows_def)

section \<open>Flat writes and reads\<close>

lemma write_parquet_overwrite:
  "write_parquet env df p compression True False engine w
   = (Inr (get_blob_url w (ensure_extension p)),
      w\<lparr>calls := calls w @ [Upload (ensure_extension p) (df_to_parquet env engine compression df) True],
        blobs := AList.update (ensure_extension p) (df_to_parquet env engine compression df) (blobs w)\<rparr>)"
  by (simp add: write_parquet_def final_blob_name_def upload_file_def)


text \<open>
  What the writer adds to the codec on a flat round trip is nothing: reading the blob
  a flat write targeted hands the decoder exactly the bytes the encoder produced.
  Whether the decoder then returns the table that was written is a property of the
  Parquet codec alone.
\<close>

lemma read_after_write:
  "read_parquet env (ensure_extension p) engine'
     (snd (write_parquet env df p compression True False engine w))
   = (pd_read_parquet env engine' (df_to_parquet env engine compression df),
      (snd (write_parquet env df p compression True False engine w))
        \<lparr>calls := calls (snd (write_parquet env df p compression True False engine w))
                    @ [Download (ensure_extension p)]\<rparr>)"
  by (simp add: write_parquet_overwrite read_parquet_def download_blob_def update_conv')

section \<open>Appending\<close>

lemma append_absent:
  "map_of (blobs w) p = None \<Longrightarrow>
   append_parquet env df p compression engine w
   = write_parquet env df p compression True False engine (w\<lparr>calls := calls w @ [Exists p]\<rparr>)"
  by (simp add: append_parquet_def blob_exists_def)

lemma append_present:
  assumes "map_of (blobs w) p = Some old" "pd_read_parquet env ''pyarrow'' old = Inr existing_df"
    and "pd_concat [existing_df, df] = Inr combined"
  shows "append_parquet env df p compression engine w
   = write_parquet env combined p compression True False engine
       (w\<lparr>calls := calls w @ [Exists p, Download p]\<rparr>)"
  using assms
  by (simp add: append_parquet_def blob_exists_def read_parquet_def download_blob_def)

text \<open>
  Claim C4. When no blob exists at \<open>p\<close>, \<open>append_parquet\<close> is the flat write of the
  table with overwrite, made after the existence probe. When a blob exists at \<open>p\<close> and
  decodes to \<open>existing_df\<close>, the table written back (stored at the normalised path)
  has the existing rows first and the new rows after them, each side in its own order:
  row \<open>i\<close> of the result carries the cells of row \<open>i\<close> of the existing table, row
  \<open>length existing + j\<close> those of row \<open>j\<close> of the new table, and when both tables
  have the same columns the rows are literally \<open>rows existing_df @ rows df\<close>.
\<close>

theorem append_semantics:
  "(map_of (blobs w) p = None \<longrightarrow>
      append_parquet env df p compression engine w
      = write_parquet env df p compression True False engine (w\<lparr>calls := calls w @ [Exists p]\<rparr>))
   \<and> (map_of (blobs w) p = Some old \<and> pd_read_parquet env ''pyarrow'' old = Inr existing_df \<longrightarrow>
        (\<exists>combined_df.
           append_parquet env df p compression engine w
             = write_parquet env combined_df p compression True False engine
                 (w\<lparr>calls := calls w @ [Exists p, Download p]\<rparr>)
           \<and> map_of (blobs (snd (append_parquet env df p compression engine w)))
                (ensure_extension p)
               = Some (df_to_parquet env engine compression combined_df)
           \<and> length (rows combined_df) = length (rows existing_df) + length (rows df)
           \<and> (\<forall>i < length (rows existing_df). \<forall>c \<in> set (columns existing_df).
                 cell_at (columns combined_df) (rows combined_df ! i) c
                 = cell_at (columns existing_df) (rows existing_df ! i) c)
           \<and> (\<forall>j < length (rows df). \<forall>c \<in> set (columns df).
                 cell_at (columns combined_df) (rows combined_df ! (length (rows existing_df) + j)) c
                 = cell_at (columns df) (rows df ! j) c)
           \<and> (wf_table existing_df \<and> wf_table df \<and> columns df = columns existing_df \<longrightarrow>
                combined_df = \<lparr>columns = columns existing_df,
                                rows = rows existing_df @ rows df\<rparr>)))"
proof (intro conjI impI)
  assume "map_of (blobs w) p = None"
  then show "append_parquet env df p compression engine w
      = write_parquet env df p compression True False engine (w\<lparr>calls := calls w @ [Exists p]\<rparr>)"
    by (rule append_absent)
next
  assume a: "map_of (blobs w) p = Some old \<and> pd_read_parquet env ''pyarrow'' old = Inr existing_df"
  define U where "U = union_columns [existing_df, df]"
  define combined where
    "combined = \<lparr>columns = U, rows = reindex_rows U existing_df @ reindex_rows U df\<rparr>"
  have pc: "pd_concat [existing_df, df] = Inr combined"
    by (simp add: pd_concat_two combined_def U_def)
  have ap: "append_parquet env df p compression engine w
             = write_parquet env combined p compression True False engine
                 (w\<lparr>calls := calls w @ [Exists p, Download p]\<rparr>)"
    using a pc by (intro append_present) auto
  have st: "map_of (blobs (snd (append_parquet env df p compression engine w))) (ensure_extension p)
             = Some (df_to_parquet env engine compression combined)"
    by (simp add: ap write_parquet_overwrite update_conv')
  have ln: "length (rows combined) = length (rows existing_df) + length (rows df)"
    by (simp add: combined_def length_reindex_rows)
  have sub: "set (columns existing_df) \<subseteq> set U" "set (columns df) \<subseteq> set U"
    by (auto simp: U_def set_union_columns)
  have c1: "\<forall>i < length (rows existing_df). \<forall>c \<in> set (columns existing_df).
                 cell_at (columns combined) (rows combined ! i) c
                 = cell_at (columns existing_df) (rows existing_df ! i) c"
    using sub(1) by (auto simp: combined_def nth_append length_reindex_rows reindex_rows_cell)
  have c2: "\<forall>j < length (rows df). \<forall>c \<in> set (columns df).
                 cell_at (columns combined) (rows combined ! (length (rows existing_df) + j)) c
                 = cell_at (columns df) (rows df ! j) c"
    using sub(2) by (auto simp: combined_def nth_append length_reindex_rows reindex_rows_cell)
  have c3: "wf_table existing_df \<and> wf_table df \<and> columns df = columns existing_df \<longrightarrow>
                combined = \<lparr>columns = columns existing_df, rows = rows existing_df @ rows df\<rparr>"
    using pc pd_concat_two_same[of existing_df df] by auto
  show "\<exists>combined_df.
           append_parquet env df p compression engine w
             = write_parquet env combined_df p compression True False engine
                 (w\<lparr>calls := calls w @ [Exists p, Download p]\<rparr>)
           \<and> map_of (blobs (snd (append_parquet env df p compression engine w)))
                (ensure_extension p)
               = Some (df_to_parquet env engine compression combined_df)
           \<and> length (rows combined_df) = length (rows existing_df) + length (rows df)
           \<and> (\<forall>i < length (rows existing_df). \<forall>c \<in> set (columns existing_df).
                 cell_at (columns combined_df) (rows combined_df ! i) c
                 = cell_at (columns existing_df) (rows existing_df ! i) c)
           \<and> (\<forall>j < length (rows df). \<forall>c \<in> set (columns df).
                 cell_at (columns combined_df) (rows combined_df ! (length (rows existing_df) + j)) c
                 = cell_at (columns df) (rows df ! j) c)
           \<and> (wf_table existing_df \<and> wf_table df \<and> columns df = columns existing_df \<longrightarrow>
                combined_df = \<lparr>columns = columns existing_df,
                                rows = rows existing_df @ rows df\<rparr>)"
    using ap st ln c1 c2 c3 by blast
qed

theorem append_semantics_witness:
  "map_of (blobs empty_world) ''out/x.parquet'' = None
   \<and> append_parquet plain_env \<lparr>columns = [''v''], rows = [[IntV 3]]\<rparr> ''out/x.parquet'' ''snappy'' ''pyarrow'' empty_world
      = write_parquet plain_env \<lparr>columns = [''v''], rows = [[IntV 3]]\<rparr> ''out/x.parquet'' ''snappy'' True False ''pyarrow''
          (empty_world\<lparr>calls := calls empty_world @ [Exists ''out/x.parquet'']\<rparr>)
   \<and> map_of (blobs w_stale) ''out/x.parquet''
       = Some (''pyarrow'', ''snappy'', \<lparr>columns = [''v''], rows = [[IntV 1], [IntV 2]]\<rparr>)
   \<and> map_of (blobs (snd (append_parquet plain_env \<lparr>columns = [''v''], rows = [[IntV 3]]\<rparr>
                             ''out/x.parquet'' ''snappy'' ''pyarrow'' w_stale))) ''out/x.parquet''
       = Some (''pyarrow'', ''snappy'', \<lparr>columns = [''v''], rows = [[IntV 1], [IntV 2], [IntV 3]]\<rparr>)"
proof -
  let ?E = "\<lparr>columns = [''v''], rows = [[IntV 1], [IntV 2]]\<rparr>"
  let ?T = "\<lparr>columns = [''v''], rows = [[IntV 3]]\<rparr>"
  have a: "map_of (blobs empty_world) ''out/x.parquet'' = None" by (simp add: empty_world_def)
  have b: "map_of (blobs w_stale) ''out/x.parquet'' = Some (''pyarrow'', ''snappy'', ?E)"
    by (simp add: w_stale_def)
  have c: "pd_read_parquet plain_env ''pyarrow'' (''pyarrow'', ''snappy'', ?E) = Inr ?E"
    by (simp add: plain_env_def)
  have d: "wf_table ?E \<and> wf_table ?T \<and> columns ?T = columns ?E" by (simp add: wf_table_def)
  have e: "ensure_extension ''out/x.parquet'' = ''out/x.parquet''"
    by (simp add: ensure_extension_def endswith_def)
  have f: "df_to_parquet plain_env ''pyarrow'' ''snappy'' = (\<lambda>df. (''pyarrow'', ''snappy'', df))"
    by (simp add: plain_env_def)
  from append_semantics[where w = empty_world and p = "''out/x.parquet''" and env = plain_env
      and df = ?T and compression = "''snappy''" and engine = "''pyarrow''"] a
  have 1: "append_parquet plain_env ?T ''out/x.parquet'' ''snappy'' ''pyarrow'' empty_world
      = write_parquet plain_env ?T ''out/x.parquet'' ''snappy'' True False ''pyarrow''
          (empty_world\<lparr>calls := calls empty_world @ [Exists ''out/x.parquet'']\<rparr>)"
    by blast
  from append_semantics[where w = w_stale and p = "''out/x.parquet''"
      and old = "(''pyarrow'', ''snappy'', ?E)" and env = plain_env and existing_df = ?E
      and df = ?T and compression = "''snappy''" and engine = "''pyarrow''"] b c d
  have 2: "map_of (blobs (snd (append_parquet plain_env ?T ''out/x.parquet'' ''snappy'' ''pyarrow'' w_stale)))
             ''out/x.parquet''
           = Some (''pyarrow'', ''snappy'', \<lparr>columns = [''v''], rows = [[IntV 1], [IntV 2], [IntV 3]]\<rparr>)"
    unfolding e f by auto
  show ?thesis using a b 1 2 by blast
qed

text \<open>
  Claim C9. The existence check looks at the raw path, the write goes to the normalised
  one: for \<open>p\<close> not ending in \<^verbatim>\<open>.parquet\<close>, with a blob at \<^verbatim>\<open>p.parquet\<close> and none
  at \<open>p\<close>, \<open>append_parquet\<close> downloads nothing and concatenates nothing; it uploads the
  new table alone over the blob at \<^verbatim>\<open>p.parquet\<close>, whose former rows are gone.
\<close>

theorem append_checks_raw_path:
  assumes "\<not> endswith p ''.parquet''"
    and "map_of (blobs w) p = None"
    and "map_of (blobs w) (p @ ''.parquet'') = Some old"
  shows "append_parquet env df p compression engine w
         = (Inr (get_blob_url w (p @ ''.parquet'')),
            w\<lparr>calls := calls w @ [Exists p,
                                   Upload (p @ ''.parquet'') (df_to_parquet env engine compression df) True],
              blobs := AList.update (p @ ''.parquet'') (df_to_parquet env engine compression df) (blobs w)\<rparr>)
       \<and> map_of (blobs (snd (append_parquet env df p compression engine w))) (p @ ''.parquet'')
         = Some (df_to_parquet env engine compression df)"
  using assms
  by (simp add: append_parquet_def blob_exists_def write_parquet_def final_blob_name_def
      ensure_extension_def upload_file_def get_blob_url_def update_conv')

theorem append_checks_raw_path_witness:
  "\<not> endswith ''out/x'' ''.parquet''
   \<and> map_of (blobs w_stale) ''out/x'' = None
   \<and> map_of (blobs w_stale) (''out/x'' @ ''.parquet'')
       = Some (''pyarrow'', ''snappy'', \<lparr>columns = [''v''], rows = [[IntV 1], [IntV 2]]\<rparr>)
   \<and> map_of (blobs (snd (append_parquet plain_env \<lparr>columns = [''v''], rows = [[IntV 3]]\<rparr>
                             ''out/x'' ''snappy'' ''pyarrow'' w_stale))) (''out/x'' @ ''.parquet'')
       = Some (''pyarrow'', ''snappy'', \<lparr>columns = [''v''], rows = [[IntV 3]]\<rparr>)"
proof -
  have a: "\<not> endswith ''out/x'' ''.parquet''" by (simp add: endswith_def)
  have b: "map_of (blobs w_stale) ''out/x'' = None" by (simp add: w_stale_def)
  have c: "map_of (blobs w_stale) (''out/x'' @ ''.parquet'')
       = Some (''pyarrow'', ''snappy'', \<lparr>columns = [''v''], rows = [[IntV 1], [IntV 2]]\<rparr>)"
    by (simp add: w_stale_def)
  show ?thesis
    using a b c append_checks_raw_path[OF a b c, of plain_env "\<lparr>columns = [''v''], rows = [[IntV 3]]\<rparr>"
        "''snappy''" "''pyarrow''"]
    by (simp add: plain_env_def update_conv')
qed

section \<open>Chunk names\<close>

lemma read_nat_snoc: "read_nat (s @ [c]) = 10 * read_nat s + (of_char c - 48)"
  by (simp add: read_nat_def)

lemma read_nat_digit: "n < 10 \<Longrightarrow> read_nat [char_of (48 + n)] = n"
  by (simp add: read_nat_def)

lemma read_show_nat: "read_nat (show_nat n) = n"
proof (induction n rule: show_nat.induct)
  case (1 n)
  show ?case
  proof (cases "n < 10")
    case True
    then show ?thesis by (subst show_nat.simps) (simp add: read_nat_digit)
  next
    case False
    have "of_char (char_of (48 + n mod 10) :: char) - 48 = n mod 10"
      by simp
    with False 1 show ?thesis
      by (subst show_nat.simps) (simp add: read_nat_snoc del: of_char_of)
  qed
qed

lemma read_nat_zeros: "read_nat (replicate m CHR ''0'' @ s) = read_nat s"
proof -
  have "foldl (\<lambda>a c. 10 * a + (of_char c - 48)) 0 (replicate m CHR ''0'') = (0::nat)"
    by (induction m) auto
  then show ?thesis by (simp add: read_nat_def)
qed

lemma read_format_05d: "read_nat (format_05d (int i)) = i"
  by (simp add: format_05d_def zfill_def read_nat_zeros read_show_nat)

lemma chunk_blob_name_inj: "chunk_blob_name base (int i) = chunk_blob_name base (int j) \<Longrightarrow> i = j"
proof -
  assume "chunk_blob_name base (int i) = chunk_blob_name base (int j)"
  then have "format_05d (int i) = format_05d (int j)"
    by (simp add: chunk_blob_name_def)
  then show "i = j" using read_format_05d by metis
qed

lemma chunk_blob_name_ext: "ensure_extension (chunk_blob_name base i) = chunk_blob_name base i"
proof -
  have "endswith ((base @ ''/chunk_'' @ format_05d i) @ ''.parquet'') ''.parquet''"
    by (rule endswith_append)
  then show ?thesis by (simp add: ensure_extension_fixed chunk_blob_name_def)
qed

lemma chunk_blob_name_nat:
  "chunk_blob_name base (int i) = base @ ''/chunk_'' @ zfill 5 (show_nat i) @ ''.parquet''"
  by (simp add: chunk_blob_name_def format_05d_def)

section \<open>The chunked write\<close>

lemma get_blob_url_upd [simp]:
  "get_blob_url (w\<lparr>calls := cs, blobs := bs\<rparr>) = get_blob_url w"
  by (rule ext) (simp add: get_blob_url_def)

lemma write_parquet_plain:
  assumes "endswith b ''.parquet''" "overwrite \<or> map_of (blobs w) b = None"
  shows "write_parquet env df b compression overwrite False engine w
   = (Inr (get_blob_url w b),
      w\<lparr>calls := calls w @ [Upload b (df_to_parquet env engine compression df) overwrite],
        blobs := AList.update b (df_to_parquet env engine compression df) (blobs w)\<rparr>)"
  using assms
  by (auto simp: write_parquet_def final_blob_name_def upload_file_def ensure_extension_fixed)

lemma write_chunks_run:
  assumes "overwrite \<or> (distinct (map (chunk_blob_name base) is)
                         \<and> (\<forall>i \<in> set is. map_of (blobs w) (chunk_blob_name base i) = None))"
  shows "write_chunks env df base k c overwrite e is urls w
   = (Inr (urls @ map (\<lambda>i. get_blob_url w (chunk_blob_name base i)) is),
      w\<lparr>calls := calls w @ map (\<lambda>i. Upload (chunk_blob_name base i)
                                   (df_to_parquet env e c (chunk_df df k i)) overwrite) is,
        blobs := foldl (\<lambda>bs i. AList.update (chunk_blob_name base i)
                                   (df_to_parquet env e c (chunk_df df k i)) bs) (blobs w) is\<rparr>)"
  using assms
proof (induction "is" arbitrary: urls w)
  case Nil
  then show ?case by simp
next
  case (Cons i "is")
  let ?b = "chunk_blob_name base i"
  let ?w1 = "w\<lparr>calls := calls w @ [Upload ?b (df_to_parquet env e c (chunk_df df k i)) overwrite],
        blobs := AList.update ?b (df_to_parquet env e c (chunk_df df k i)) (blobs w)\<rparr>"
  have e: "endswith ?b ''.parquet''"
    using ensure_extension_endswith[of ?b] by (simp add: chunk_blob_name_ext)
  have ok: "overwrite \<or> map_of (blobs w) ?b = None" using Cons.prems by auto
  have w1: "write_parquet env (chunk_df df k i) ?b c overwrite False e w = (Inr (get_blob_url w ?b), ?w1)"
    by (rule write_parquet_plain[OF e ok])
  have pre: "overwrite \<or> (distinct (map (chunk_blob_name base) is)
                         \<and> (\<forall>j \<in> set is. map_of (blobs ?w1) (chunk_blob_name base j) = None))"
    using Cons.prems by (auto simp: update_conv' image_iff)
  show ?case
    by (simp add: w1 Cons.IH[OF pre])
qed

lemma py_range_nat: "py_range n = map int [0..<nat n]"
  by (simp add: py_range_def)

lemma chunk_df_rows:
  assumes "0 < k"
  shows "chunk_df df k (int i)
         = \<lparr>columns = columns df,
            rows = take (min ((i + 1) * nat k) (length (rows df)) - i * nat k)
                     (drop (i * nat k) (rows df))\<rparr>"
proof -
  define K where "K = nat k"
  have K: "k = int K" "0 < K" using assms by (simp_all add: K_def)
  have s1: "slice_bound (int i * int K) (length (rows df)) = min (i * K) (length (rows df))"
    by (simp add: slice_bound_def flip: of_nat_mult)
  have "(int i + 1) * int K = int ((i + 1) * K)" by (simp add: algebra_simps)
  then have "min ((int i + 1) * int K) (int (length (rows df))) = int (min ((i + 1) * K) (length (rows df)))"
    by (simp only: of_nat_min)
  then have s2: "slice_bound (min ((int i + 1) * int K) (len df)) (length (rows df))
           = min ((i + 1) * K) (length (rows df))"
    by (simp add: slice_bound_def len_def del: of_nat_min of_nat_mult of_nat_add)
  have "take (min ((i + 1) * K) (length (rows df)) - min (i * K) (length (rows df)))
          (drop (min (i * K) (length (rows df))) (rows df))
        = take (min ((i + 1) * K) (length (rows df)) - i * K) (drop (i * K) (rows df))"
    by (cases "i * K \<le> length (rows df)") (auto simp: min_def)
  then show ?thesis
    by (simp add: chunk_df_def iloc_def K s1 s2 Let_def)
qed

lemma chunk_take: "take (min ((i + 1) * K) n - i * K) (drop (i * K) xs) = take K (drop (i * K) xs)"
  if "n = length xs" for xs :: "'a list"
  using that by (auto simp: min_def intro: take_all)

lemma concat_chunks:
  "concat (map (\<lambda>i. take K (drop (i * K) xs)) [0..<m]) = take (m * K) xs"
proof (induction m)
  case 0
  then show ?case by simp
next
  case (Suc m)
  have "take (Suc m * K) xs = take (m * K + K) xs" by (simp add: add.commute)
  also have "\<dots> = take (m * K) xs @ take K (drop (m * K) xs)" by (rule take_add)
  finally show ?case using Suc by simp
qed

lemma num_chunks_bounds:
  assumes "0 < k"
  shows "len df \<le> num_chunks df k * k" "num_chunks df k * k < len df + k" "0 \<le> num_chunks df k"
proof -
  let ?a = "len df + k - 1"
  have m: "?a = ?a div k * k + ?a mod k" by simp
  have r: "0 \<le> ?a mod k" "?a mod k < k" using assms by simp_all
  show "len df \<le> num_chunks df k * k" unfolding num_chunks_def using m r by linarith
  show "num_chunks df k * k < len df + k" unfolding num_chunks_def using m r by linarith
  have "0 \<le> ?a" using assms by (simp add: len_def)
  then show "0 \<le> num_chunks df k" unfolding num_chunks_def using assms
    by (simp add: pos_imp_zdiv_nonneg_iff)
qed

lemma map_of_foldl_update:
  assumes "inj_on name (set is)" "i \<in> set is"
  shows "map_of (foldl (\<lambda>bs i. AList.update (name i) (payload i) bs) bs0 is) (name i)
         = Some (payload i)"
  using assms
proof (induction "is" rule: rev_induct)
  case Nil
  then show ?case by simp
next
  case (snoc j "is")
  show ?case
  proof (cases "name j = name i")
    case True
    then have "j = i" using snoc.prems by (auto simp: inj_on_def)
    then show ?thesis by (simp add: update_conv')
  next
    case False
    then have "i \<in> set is" using snoc.prems by auto
    moreover have "inj_on name (set is)" using snoc.prems by (auto simp: inj_on_def)
    ultimately show ?thesis using snoc.IH False by (simp add: update_conv')
  qed
qed

lemma write_parquet_chunked_run:
  assumes "chunk_size \<noteq> 0"
    and "overwrite \<or> (\<forall>i < nat (num_chunks df chunk_size).
                        map_of (blobs w) (chunk_blob_name base (int i)) = None)"
  shows "write_parquet_chunked env df base chunk_size c overwrite e w
   = (Inr (map (\<lambda>i. get_blob_url w (chunk_blob_name base (int i))) [0..<nat (num_chunks df chunk_size)]),
      w\<lparr>calls := calls w @ map (\<lambda>i. Upload (chunk_blob_name base (int i))
                                   (df_to_parquet env e c (chunk_df df chunk_size (int i))) overwrite)
                              [0..<nat (num_chunks df chunk_size)],
        blobs := foldl (\<lambda>bs i. AList.update (chunk_blob_name base (int i))
                                   (df_to_parquet env e c (chunk_df df chunk_size (int i))) bs)
                   (blobs w) [0..<nat (num_chunks df chunk_size)]\<rparr>)"
proof -
  let ?is = "py_range (num_chunks df chunk_size)"
  have d: "distinct (map (chunk_blob_name base) ?is)"
    by (auto simp: py_range_nat distinct_map inj_on_def dest: chunk_blob_name_inj)
  have pre: "overwrite \<or> (distinct (map (chunk_blob_name base) ?is)
                         \<and> (\<forall>i \<in> set ?is. map_of (blobs w) (chunk_blob_name base i) = None))"
    using assms(2) d by (auto simp: py_range_nat)
  show ?thesis
    using assms(1)
    by (simp add: write_parquet_chunked_def write_chunks_run[OF pre])
       (simp add: py_range_nat comp_def foldl_map)
qed

text \<open>
  Claim C2. For a positive chunk size \<open>k\<close> and a table of \<open>n\<close> rows, when the uploads
  are not refused (overwrite is set, or no chunk blob exists yet), the chunked write
  makes exactly \<open>num_chunks = \<lceil>n / k\<rceil>\<close> uploads (\<open>n \<le> num_chunks * k < n + k\<close>), in
  ascending index order, and returns their URLs in that order. Upload \<open>i\<close> goes to
  \<^verbatim>\<open>base/chunk_<i, five digits>.parquet\<close> and carries the rows
  \<open>[i * k, min ((i + 1) * k) n)\<close> of the table, in order, under the table's columns;
  afterwards the store holds that payload under that name. The chunks in ascending
  index order concatenate to the rows of the table, and a table without rows yields the
  empty list of URLs.
\<close>

theorem chunk_coverage:
  assumes "0 < chunk_size"
    and "overwrite \<or> (\<forall>i < nat (num_chunks df chunk_size).
                        map_of (blobs w) (chunk_blob_name base (int i)) = None)"
  shows
  "len df \<le> num_chunks df chunk_size * chunk_size
   \<and> num_chunks df chunk_size * chunk_size < len df + chunk_size
   \<and> fst (write_parquet_chunked env df base chunk_size c overwrite e w)
       = Inr (map (\<lambda>i. get_blob_url w (chunk_blob_name base (int i)))
                [0..<nat (num_chunks df chunk_size)])
   \<and> calls (snd (write_parquet_chunked env df base chunk_size c overwrite e w))
       = calls w @ map (\<lambda>i. Upload (chunk_blob_name base (int i))
                              (df_to_parquet env e c (chunk_df df chunk_size (int i))) overwrite)
                     [0..<nat (num_chunks df chunk_size)]
   \<and> (\<forall>i < nat (num_chunks df chunk_size).
         map_of (blobs (snd (write_parquet_chunked env df base chunk_size c overwrite e w)))
           (chunk_blob_name base (int i))
         = Some (df_to_parquet env e c (chunk_df df chunk_size (int i)))
       \<and> chunk_blob_name base (int i) = base @ ''/chunk_'' @ zfill 5 (show_nat i) @ ''.parquet''
       \<and> chunk_df df chunk_size (int i)
         = \<lparr>columns = columns df,
            rows = take (min ((i + 1) * nat chunk_size) (length (rows df)) - i * nat chunk_size)
                     (drop (i * nat chunk_size) (rows df))\<rparr>)
   \<and> concat (map (\<lambda>i. rows (chunk_df df chunk_size (int i))) [0..<nat (num_chunks df chunk_size)])
       = rows df
   \<and> (rows df = [] \<longrightarrow>
        fst (write_parquet_chunked env df base chunk_size c overwrite e w) = Inr [])"
proof -
  let ?m = "nat (num_chunks df chunk_size)"
  let ?K = "nat chunk_size"
  note nb = num_chunks_bounds[OF assms(1), of df]
  have ne: "chunk_size \<noteq> 0" using assms(1) by simp
  note run = write_parquet_chunked_run[OF ne assms(2), where env = env and e = e and c = c]
  have stored: "map_of (blobs (snd (write_parquet_chunked env df base chunk_size c overwrite e w)))
           (chunk_blob_name base (int i))
         = Some (df_to_parquet env e c (chunk_df df chunk_size (int i)))" if "i < ?m" for i
  proof -
    have inj: "inj_on (\<lambda>i. chunk_blob_name base (int i)) (set [0..<?m])"
      by (auto simp: inj_on_def dest: chunk_blob_name_inj)
    have "i \<in> set [0..<?m]" using that by simp
    from map_of_foldl_update[OF inj this,
        where payload = "\<lambda>i. df_to_parquet env e c (chunk_df df chunk_size (int i))"
          and ?bs0.0 = "blobs w"]
    show ?thesis by (simp add: run)
  qed
  have rows_i: "rows (chunk_df df chunk_size (int i)) = take ?K (drop (i * ?K) (rows df))" for i
  proof -
    have "rows (chunk_df df chunk_size (int i))
          = take (min ((i + 1) * ?K) (length (rows df)) - i * ?K) (drop (i * ?K) (rows df))"
      by (simp only: chunk_df_rows[OF assms(1)] table.select_convs)
    also have "\<dots> = take ?K (drop (i * ?K) (rows df))"
      by (rule chunk_take) simp
    finally show ?thesis .
  qed
  have "length (rows df) \<le> ?m * ?K"
  proof -
    have "int (?m * ?K) = num_chunks df chunk_size * chunk_size"
      using nb(3) assms(1) by simp
    then show ?thesis using nb(1) by (simp add: len_def del: of_nat_mult)
  qed
  then have cover: "concat (map (\<lambda>i. rows (chunk_df df chunk_size (int i))) [0..<?m]) = rows df"
    by (simp add: rows_i concat_chunks)
  have empty: "fst (write_parquet_chunked env df base chunk_size c overwrite e w) = Inr []"
    if "rows df = []"
  proof -
    have "num_chunks df chunk_size * chunk_size < chunk_size"
      using nb(2) that by (simp add: len_def)
    then have "num_chunks df chunk_size < 1" using assms(1) by (simp add: mult_less_cancel_right1)
    then show ?thesis by (simp add: run)
  qed
  show ?thesis
    using nb(1,2) stored cover empty
    by (simp add: run chunk_blob_name_nat chunk_df_rows[OF assms(1)])
qed

theorem chunk_coverage_witness:
  "(0::int) < 100 \<and> num_chunks T250 100 = 3
   \<and> fst (write_parquet_chunked plain_env T250 ''base'' 100 ''snappy'' True ''pyarrow'' empty_world)
       = Inr [''https://acct.blob.core.windows.net/data/base/chunk_00000.parquet'',
              ''https://acct.blob.core.windows.net/data/base/chunk_00001.parquet'',
              ''https://acct.blob.core.windows.net/data/base/chunk_00002.parquet'']
   \<and> concat (map (\<lambda>i. rows (chunk_df T250 100 (int i))) [0..<3]) = rows T250"
proof -
  have n: "num_chunks T250 100 = 3" by (simp add: num_chunks_def len_def T250_def)
  have u: "[0..<3] = [0, 1, 2]" by (simp add: upt_rec)
  have names: "chunk_blob_name ''base'' 0 = ''base/chunk_00000.parquet''"
     "chunk_blob_name ''base'' 1 = ''base/chunk_00001.parquet''"
     "chunk_blob_name ''base'' 2 = ''base/chunk_00002.parquet''"
    by code_simp+
  have g: "get_blob_url empty_world b = ''https://acct.blob.core.windows.net/data/'' @ b" for b
    by (simp add: get_blob_url_def empty_world_def)
  from chunk_coverage[of 100 True T250 empty_world "''base''" plain_env "''snappy''" "''pyarrow''"]
  show ?thesis by (simp add: n u names g)
qed

section \<open>The partitioned write\<close>

lemma partition_blob_name_ext:
  "ensure_extension (partition_blob_name base P k) = partition_blob_name base P k"
proof -
  have "partition_blob_name base P k
        = (base @ ''/'' @ join ''/'' (map (\<lambda>(col, val). col @ ''='' @ str_cell val) (zip P k)) @ ''/data'')
          @ ''.parquet''"
    by (simp add: partition_blob_name_def)
  then have "endswith (partition_blob_name base P k) ''.parquet''"
    using endswith_append by metis
  then show ?thesis by (rule ensure_extension_fixed)
qed

lemma drop_columns_ok:
  "set cols \<subseteq> set (columns df) \<Longrightarrow> drop_columns df cols = Inr (without_columns df cols)"
proof -
  assume "set cols \<subseteq> set (columns df)"
  then have "find (\<lambda>c. c \<notin> set (columns df)) cols = None"
    by (auto simp: find_None_iff)
  then show ?thesis by (simp add: drop_columns_def)
qed

lemma write_partitions_run:
  assumes "\<forall>kg \<in> set grouped. set P \<subseteq> set (columns (snd kg))"
    and "overwrite \<or> (distinct (map (\<lambda>kg. partition_blob_name base P (fst kg)) grouped)
                      \<and> (\<forall>kg \<in> set grouped. map_of (blobs w) (partition_blob_name base P (fst kg)) = None))"
  shows "write_partitions env base P c overwrite e grouped urls w
   = (Inr (urls @ map (\<lambda>kg. get_blob_url w (partition_blob_name base P (fst kg))) grouped),
      w\<lparr>calls := calls w @ map (\<lambda>kg. Upload (partition_blob_name base P (fst kg))
                                   (df_to_parquet env e c (without_columns (snd kg) P)) overwrite) grouped,
        blobs := foldl (\<lambda>bs kg. AList.update (partition_blob_name base P (fst kg))
                                   (df_to_parquet env e c (without_columns (snd kg) P)) bs) (blobs w) grouped\<rparr>)"
  using assms
proof (induction grouped arbitrary: urls w)
  case Nil
  then show ?case by simp
next
  case (Cons kg grouped)
  obtain k g where kg: "kg = (k, g)" by (cases kg)
  let ?b = "partition_blob_name base P k"
  let ?w1 = "w\<lparr>calls := calls w @ [Upload ?b (df_to_parquet env e c (without_columns g P)) overwrite],
        blobs := AList.update ?b (df_to_parquet env e c (without_columns g P)) (blobs w)\<rparr>"
  have d: "drop_columns g P = Inr (without_columns g P)"
    using Cons.prems(1) kg by (intro drop_columns_ok) auto
  have e: "endswith ?b ''.parquet''"
    using ensure_extension_endswith[of ?b] by (simp add: partition_blob_name_ext)
  have ok: "overwrite \<or> map_of (blobs w) ?b = None" using Cons.prems(2) kg by auto
  have w1: "write_parquet env (without_columns g P) ?b c overwrite False e w
            = (Inr (get_blob_url w ?b), ?w1)"
    by (rule write_parquet_plain[OF e ok])
  have pre1: "\<forall>kg \<in> set grouped. set P \<subseteq> set (columns (snd kg))"
    using Cons.prems(1) by auto
  have pre2: "overwrite \<or> (distinct (map (\<lambda>kg. partition_blob_name base P (fst kg)) grouped)
                      \<and> (\<forall>kg \<in> set grouped. map_of (blobs ?w1) (partition_blob_name base P (fst kg)) = None))"
    using Cons.prems(2) kg by (auto simp: update_conv' image_iff)
  show ?case
    by (simp add: kg d w1 Cons.IH[OF pre1 pre2])
qed

lemma groupby_ok:
  "P \<noteq> [] \<Longrightarrow> set P \<subseteq> set (columns df) \<Longrightarrow>
   groupby df P = Inr (map (\<lambda>k. (k, group_frame df P k)) (group_keys df P))"
proof -
  assume "P \<noteq> []" "set P \<subseteq> set (columns df)"
  moreover from this have "find (\<lambda>c. c \<notin> set (columns df)) P = None"
    by (auto simp: find_None_iff)
  ultimately show ?thesis by (simp add: groupby_def)
qed

lemma write_parquet_partitioned_run:
  assumes "P \<noteq> []" "set P \<subseteq> set (columns df)"
    and "overwrite \<or> (distinct (map (partition_blob_name base P) (group_keys df P))
                      \<and> (\<forall>k \<in> set (group_keys df P). map_of (blobs w) (partition_blob_name base P k) = None))"
  shows "write_parquet_partitioned env df base P c overwrite e w
   = (Inr (map (\<lambda>k. get_blob_url w (partition_blob_name base P k)) (group_keys df P)),
      w\<lparr>calls := calls w @ map (\<lambda>k. Upload (partition_blob_name base P k)
                                   (df_to_parquet env e c (without_columns (group_frame df P k) P))
                                   overwrite) (group_keys df P),
        blobs := foldl (\<lambda>bs k. AList.update (partition_blob_name base P k)
                                   (df_to_parquet env e c (without_columns (group_frame df P k) P)) bs)
                   (blobs w) (group_keys df P)\<rparr>)"
proof -
  let ?grouped = "map (\<lambda>k. (k, group_frame df P k)) (group_keys df P)"
  have p1: "\<forall>kg \<in> set ?grouped. set P \<subseteq> set (columns (snd kg))"
    using assms(2) by (auto simp: group_frame_def)
  have p2: "overwrite \<or> (distinct (map (\<lambda>kg. partition_blob_name base P (fst kg)) ?grouped)
                      \<and> (\<forall>kg \<in> set ?grouped. map_of (blobs w) (partition_blob_name base P (fst kg)) = None))"
    using assms(3) by (auto simp: comp_def)
  show ?thesis
    by (simp add: write_parquet_partitioned_def ensure_partition_cols_ok[OF assms(2)]
        groupby_ok[OF assms(1,2)] write_partitions_run[OF p1 p2])
       (simp add: comp_def foldl_map)
qed

subsection \<open>The order of the groups\<close>

lemma group_keys_sorted: "sorted_wrt (<) (group_keys df P)"
  by (simp add: group_keys_def strict_sorted_iff)

lemma set_group_keys: "set (group_keys df P) = key_of df P ` set (keyed_rows df P)"
  by (simp add: group_keys_def)

lemma group_keys_length: "k \<in> set (group_keys df P) \<Longrightarrow> length k = length P"
  by (auto simp: set_group_keys key_of_def)

lemma group_keys_perm:
  assumes "columns df' = columns df" "mset (rows df') = mset (rows df)"
  shows "group_keys df' P = group_keys df P"
proof -
  have k: "key_of df' P = key_of df P"
    using assms(1) by (intro ext) (simp add: key_of_def)
  have "set (rows df') = set (rows df)" using assms(2) by (rule mset_eq_setD)
  then have "set (keyed_rows df' P) = set (keyed_rows df P)"
    by (simp add: keyed_rows_def k)
  then have "set (map (key_of df' P) (keyed_rows df' P)) = set (map (key_of df P) (keyed_rows df P))"
    by (simp add: k)
  then show ?thesis
    unfolding group_keys_def by (metis sorted_list_of_set_sort_remdups)
qed

text \<open>
  Claim C10. For a non-empty list \<open>P\<close> of columns of the table, when the uploads are
  not refused, the partitioned write uploads one blob per group and returns the URLs,
  both in the order of \<open>group_keys\<close>: the distinct combinations of partition values,
  strictly ascending in the lexicographic order of the tuples (one value per column of
  \<open>P\<close>, compared column by column). The order in which the combinations first appear
  among the rows plays no part: a table with the same columns and the same rows in any
  other order yields the same list of URLs.
\<close>

theorem partition_order_sorted:
  assumes "P \<noteq> []" "set P \<subseteq> set (columns df)"
    and "overwrite \<or> (distinct (map (partition_blob_name base P) (group_keys df P))
                      \<and> (\<forall>k \<in> set (group_keys df P).
                            map_of (blobs w) (partition_blob_name base P k) = None))"
  shows
  "fst (write_parquet_partitioned env df base P c overwrite e w)
     = Inr (map (\<lambda>k. get_blob_url w (partition_blob_name base P k)) (group_keys df P))
   \<and> calls (snd (write_parquet_partitioned env df base P c overwrite e w))
     = calls w @ map (\<lambda>k. Upload (partition_blob_name base P k)
                           (df_to_parquet env e c (without_columns (group_frame df P k) P))
                           overwrite) (group_keys df P)
   \<and> sorted_wrt (<) (group_keys df P)
   \<and> set (group_keys df P) = key_of df P ` set (keyed_rows df P)
   \<and> (\<forall>k \<in> set (group_keys df P). length k = length P)
   \<and> (\<forall>df'. columns df' = columns df \<and> mset (rows df') = mset (rows df) \<longrightarrow>
         fst (write_parquet_partitioned env df' base P c overwrite e w)
         = fst (write_parquet_partitioned env df base P c overwrite e w))"
proof -
  note run = write_parquet_partitioned_run[OF assms, where env = env and c = c and e = e]
  have perm: "fst (write_parquet_partitioned env df' base P c overwrite e w)
         = fst (write_parquet_partitioned env df base P c overwrite e w)"
    if h: "columns df' = columns df \<and> mset (rows df') = mset (rows df)" for df'
  proof -
    have g: "group_keys df' P = group_keys df P" using h by (intro group_keys_perm) auto
    have "set P \<subseteq> set (columns df')" using assms(2) h by simp
    from write_parquet_partitioned_run[OF assms(1) this, where env = env and c = c and e = e
        and overwrite = overwrite and base = base and w = w]
    show ?thesis using assms(3) by (simp add: g run)
  qed
  show ?thesis
    using perm group_keys_sorted set_group_keys group_keys_length
    by (simp add: run)
qed

theorem partition_order_sorted_witness:
  "[''year''] \<noteq> [] \<and> set [''year''] \<subseteq> set (columns T3)
   \<and> map (key_of T3 [''year'']) (rows T3) = [[IntV 2024], [IntV 2023], [IntV 2023]]
   \<and> group_keys T3 [''year''] = [[IntV 2023], [IntV 2024]]
   \<and> fst (write_parquet_partitioned plain_env T3 ''base'' [''year''] ''snappy'' True ''pyarrow''
            empty_world)
      = Inr [''https://acct.blob.core.windows.net/data/base/year=2023/data.parquet'',
             ''https://acct.blob.core.windows.net/data/base/year=2024/data.parquet'']"
proof -
  have a: "[''year''] \<noteq> []" by simp
  have b: "set [''year''] \<subseteq> set (columns T3)" by (simp add: T3_def)
  have c: "map (key_of T3 [''year'']) (rows T3) = [[IntV 2024], [IntV 2023], [IntV 2023]]"
    by (simp add: T3_def key_of_def cell_at_def)
  have d: "group_keys T3 [''year''] = [[IntV 2023], [IntV 2024]]"
    by code_simp
  have n: "partition_blob_name ''base'' [''year''] [IntV 2023] = ''base/year=2023/data.parquet''"
    "partition_blob_name ''base'' [''year''] [IntV 2024] = ''base/year=2024/data.parquet''"
    by code_simp+
  have g: "get_blob_url empty_world b = ''https://acct.blob.core.windows.net/data/'' @ b" for b
    by (simp add: get_blob_url_def empty_world_def)
  from partition_order_sorted[OF a b, where overwrite = True and env = plain_env and base = "''base''"
      and c = "''snappy''" and e = "''pyarrow''" and w = empty_world]
  show ?thesis using a b c by (simp add: d n g)
qed

subsection \<open>The groups partition the rows\<close>

lemma mset_groups:
  "distinct ks \<Longrightarrow>
   mset (concat (map (\<lambda>k. filter (\<lambda>r. f r = k) xs) ks)) = mset (filter (\<lambda>r. f r \<in> set ks) xs)"
proof (induction ks)
  case Nil
  then show ?case by simp
next
  case (Cons k ks)
  have "mset (filter (\<lambda>r. f r = k) xs) + mset (filter (\<lambda>r. f r \<in> set ks) xs)
        = mset (filter (\<lambda>r. f r = k \<or> f r \<in> set ks) xs)"
    using Cons.prems by (induction xs) auto
  then show ?case using Cons by simp
qed

lemma mset_group_rows:
  "mset (concat (map (\<lambda>k. rows (group_frame df P k)) (group_keys df P))) = mset (keyed_rows df P)"
proof -
  have d: "distinct (group_keys df P)" by (simp add: group_keys_def)
  have "filter (\<lambda>r. key_of df P r \<in> set (group_keys df P)) (keyed_rows df P) = keyed_rows df P"
    by (simp add: set_group_keys)
  then show ?thesis
    using mset_groups[OF d, of "key_of df P" "keyed_rows df P"] by (simp add: group_frame_def)
qed

lemma map_of_filter_fst:
  "Q c \<Longrightarrow> map_of (filter (\<lambda>(a, b). Q a) zs) c = map_of zs c"
  by (induction zs) auto

lemma zip_filter_fst:
  "length r = length cols \<Longrightarrow>
   zip (filter Q cols) (map snd (filter (\<lambda>(a, b). Q a) (zip cols r))) = filter (\<lambda>(a, b). Q a) (zip cols r)"
  by (induction cols r rule: list_induct2') auto

lemma cell_at_stripped:
  assumes "length r = length cols" "c \<notin> set P"
  shows "cell_at (filter (\<lambda>c. c \<notin> set P) cols)
           (map snd (filter (\<lambda>(c, v). c \<notin> set P) (zip cols r))) c = cell_at cols r c"
  using assms(2)
  by (simp add: cell_at_def zip_filter_fst[OF assms(1), of "\<lambda>c. c \<notin> set P"]
      map_of_filter_fst[of "\<lambda>c. c \<notin> set P"])

lemma keyed_rows_all:
  "\<forall>r \<in> set (rows df). NullV \<notin> set (key_of df P r) \<Longrightarrow> keyed_rows df P = rows df"
  by (simp add: keyed_rows_def)

section \<open>The order of chunk names\<close>

text \<open>Among indices below 100000 the zero-padded names sort as the indices do; a sixth
  digit breaks this.\<close>

lemma char_of_48: "char_of (48::nat) = CHR ''0''"
  by code_simp












lemma char_of_49: "char_of (49::nat) = CHR ''1''"
  by code_simp

lemma f1: "format_05d 100000 = ''100000''"
  by (simp add: format_05d_def zfill_def show_nat.simps char_of_49 char_of_48)

lemma f2: "format_05d 10001 = ''10001''"
  by (simp add: format_05d_def zfill_def show_nat.simps char_of_49 char_of_48)


subsection \<open>The store after a chunked write\<close>

lemma keys_foldl_update:
  assumes "distinct (map name is)" "\<forall>i \<in> set is. name i \<notin> set (map fst bs)"
  shows "map fst (foldl (\<lambda>bs i. AList.update (name i) (payload i) bs) bs is)
         = map fst bs @ map name is"
  using assms
proof (induction "is" arbitrary: bs)
  case Nil
  then show ?case by simp
next
  case (Cons i "is")
  have k: "map fst (AList.update (name i) (payload i) bs) = map fst bs @ [name i]"
    using Cons.prems(2) by (simp add: update_keys)
  have "\<forall>j \<in> set is. name j \<notin> set (map fst (AList.update (name i) (payload i) bs))"
    using Cons.prems by (auto simp: k image_iff)
  moreover have "distinct (map name is)" using Cons.prems(1) by simp
  ultimately show ?case using Cons.IH[of "AList.update (name i) (payload i) bs"] by (simp add: k)
qed

lemma startswith_append: "startswith (p @ s) p"
  by (simp add: startswith_def)



subsection \<open>The chunked read\<close>





lemma pd_concat_same:
  assumes "dfs \<noteq> []" "distinct cols" "\<forall>df \<in> set dfs. columns df = cols \<and> wf_table df"
  shows "pd_concat dfs = Inr \<lparr>columns = cols, rows = concat (map rows dfs)\<rparr>"
proof -
  have u: "union_columns dfs = cols"
    using assms by (intro union_columns_same) auto
  have "reindex_rows cols df = rows df" if "df \<in> set dfs" for df
    using that assms(3) reindex_rows_same[of df] by auto
  then have m: "map (reindex_rows cols) dfs = map rows dfs" by simp
  show ?thesis using assms(1) by (simp add: pd_concat_def u m)
qed

subsection \<open>Reading back a chunked write\<close>


















section \<open>The partitioned layout read back\<close>

subsection \<open>Splitting a partition path\<close>

lemma split_on_nonempty: "split_on c s \<noteq> []"
  by (induction s) (auto split: list.splits)

lemma split_on_free: "c \<notin> set s \<Longrightarrow> split_on c s = [s]"
  by (induction s) auto

lemma split_on_append: "split_on c (a @ c # b) = split_on c a @ split_on c b"
proof (induction a)
  case Nil
  then show ?case by simp
next
  case (Cons x a)
  obtain p ps where s: "split_on c a = p # ps"
    using split_on_nonempty[of c a] by (cases "split_on c a") auto
  show ?case using Cons s by simp
qed

lemma set_split_on: "p \<in> set (split_on c s) \<Longrightarrow> set p \<subseteq> set s"
proof (induction s arbitrary: p)
  case Nil
  then show ?case by simp
next
  case (Cons x s)
  obtain q qs where s: "split_on c s = q # qs"
    using split_on_nonempty[of c s] by (cases "split_on c s") auto
  have "set q \<subseteq> set s" "\<forall>r \<in> set qs. set r \<subseteq> set s"
    using Cons.IH s by auto
  then show ?case using Cons.prems s by (auto split: if_splits)
qed

lemma split_on_join:
  "segs \<noteq> [] \<Longrightarrow> \<forall>s \<in> set segs. CHR ''/'' \<notin> set s \<Longrightarrow>
   split_on CHR ''/'' (join ''/'' segs) = segs"
proof (induction "''/''" segs rule: join.induct)
  case 1
  then show ?case by simp
next
  case (2 x)
  then show ?case by (simp add: split_on_free)
next
  case (3 x y ys)
  have "split_on CHR ''/'' (x @ CHR ''/'' # join ''/'' (y # ys))
        = split_on CHR ''/'' x @ split_on CHR ''/'' (join ''/'' (y # ys))"
    by (rule split_on_append)
  then show ?case using 3 by (simp add: split_on_free)
qed

lemma split_partition_blob_name:
  assumes "segs \<noteq> []" "\<forall>s \<in> set segs. CHR ''/'' \<notin> set s"
  shows "split_on CHR ''/'' (base @ ''/'' @ join ''/'' segs @ ''/data.parquet'')
         = split_on CHR ''/'' base @ segs @ [''data.parquet'']"
proof -
  have "split_on CHR ''/'' (join ''/'' segs @ CHR ''/'' # ''data.parquet'')
        = split_on CHR ''/'' (join ''/'' segs) @ split_on CHR ''/'' ''data.parquet''"
    by (rule split_on_append)
  also have "\<dots> = segs @ [''data.parquet'']"
    using assms by (simp add: split_on_join)
  finally have t: "split_on CHR ''/'' (join ''/'' segs @ CHR ''/'' # ''data.parquet'')
                   = segs @ [''data.parquet'']" .
  have "split_on CHR ''/'' (base @ CHR ''/'' # (join ''/'' segs @ CHR ''/'' # ''data.parquet''))
        = split_on CHR ''/'' base @ split_on CHR ''/'' (join ''/'' segs @ CHR ''/'' # ''data.parquet'')"
    by (rule split_on_append)
  then show ?thesis by (simp add: t)
qed

lemma split_first_eq: "c \<notin> set a \<Longrightarrow> split_first c (a @ c # b) = (a, b)"
  by (induction a) (auto simp: split_first_def)

subsection \<open>The columns a path adds\<close>

lemma set_columns_fresh:
  assumes "distinct (map fst cvs)" "set (map fst cvs) \<inter> set (columns df) = {}"
  shows "foldl (\<lambda>df (col, val). set_column df col (str_cell val)) df cvs
         = \<lparr>columns = columns df @ map fst cvs,
            rows = map (\<lambda>r. r @ map (\<lambda>(col, val). StrV (str_cell val)) cvs) (rows df)\<rparr>"
  using assms
proof (induction cvs arbitrary: df)
  case Nil
  then show ?case by simp
next
  case (Cons cv cvs)
  obtain col val where cv: "cv = (col, val)" by (cases cv)
  let ?df1 = "\<lparr>columns = columns df @ [col], rows = map (\<lambda>r. r @ [StrV (str_cell val)]) (rows df)\<rparr>"
  have s: "set_column df col (str_cell val) = ?df1"
    using Cons.prems(2) cv by (auto simp: set_column_def)
  have d: "distinct (map fst cvs)" using Cons.prems(1) by simp
  have i: "set (map fst cvs) \<inter> set (columns ?df1) = {}"
    using Cons.prems cv by auto
  show ?case
    by (simp add: cv s Cons.IH[OF d i] comp_def)
qed

lemma no_partition_part:
  "\<forall>p \<in> set parts. CHR ''='' \<notin> set p \<Longrightarrow>
   foldl (\<lambda>df part. if CHR ''='' \<in> set part
                     then (case split_first CHR ''='' part of (key, value) \<Rightarrow> set_column df key value)
                     else df) df parts = df"
  by (induction parts arbitrary: df) auto

lemma partition_parts:
  assumes "\<forall>c \<in> set P. CHR ''='' \<notin> set c"
  shows "foldl (\<lambda>df part. if CHR ''='' \<in> set part
                     then (case split_first CHR ''='' part of (key, value) \<Rightarrow> set_column df key value)
                     else df) df
           (map (\<lambda>(col, val). col @ ''='' @ str_cell val) (zip P k))
         = foldl (\<lambda>df (col, val). set_column df col (str_cell val)) df (zip P k)"
  using assms
proof (induction P arbitrary: k df)
  case Nil
  then show ?case by simp
next
  case step: (Cons c P)
  show ?case
  proof (cases k)
    case Nil
    then show ?thesis by simp
  next
    case (Cons v vs)
    have "split_first CHR ''='' (c @ CHR ''='' # str_cell v) = (c, str_cell v)"
      using step.prems by (intro split_first_eq) simp
    then show ?thesis using Cons step.IH step.prems by simp
  qed
qed

lemma add_partition_columns_path:
  assumes "P \<noteq> []" "length k = length P" "distinct P" "set P \<inter> set (columns payload) = {}"
    and "CHR ''='' \<notin> set base"
    and "\<forall>c \<in> set P. CHR ''/'' \<notin> set c \<and> CHR ''='' \<notin> set c"
    and "\<forall>v \<in> set k. CHR ''/'' \<notin> set (str_cell v)"
  shows "add_partition_columns (partition_blob_name base P k) payload
         = \<lparr>columns = columns payload @ P,
            rows = map (\<lambda>r. r @ map (\<lambda>v. StrV (str_cell v)) k) (rows payload)\<rparr>"
proof -
  let ?segs = "map (\<lambda>(col, val). col @ ''='' @ str_cell val) (zip P k)"
  let ?step = "\<lambda>df part. if CHR ''='' \<in> set part
                     then (case split_first CHR ''='' part of (key, value) \<Rightarrow> set_column df key value)
                     else df"
  have ne: "?segs \<noteq> []" using assms(1,2) by (cases P; cases k) auto
  have ns: "\<forall>s \<in> set ?segs. CHR ''/'' \<notin> set s"
    using assms(6,7) by (auto dest: set_zip_leftD set_zip_rightD)
  have parts: "split_on CHR ''/'' (partition_blob_name base P k)
               = split_on CHR ''/'' base @ ?segs @ [''data.parquet'']"
    unfolding partition_blob_name_def by (rule split_partition_blob_name[OF ne ns])
  have b: "foldl ?step payload (split_on CHR ''/'' base) = payload"
    using assms(5) set_split_on[of _ "CHR ''/''" base] by (intro no_partition_part) blast
  have f: "map fst (zip P k) = P" using assms(2) by (simp add: map_fst_zip)
  have m: "foldl ?step payload ?segs
           = \<lparr>columns = columns payload @ P,
              rows = map (\<lambda>r. r @ map (\<lambda>(col, val). StrV (str_cell val)) (zip P k)) (rows payload)\<rparr>"
  proof -
    have "foldl ?step payload ?segs
          = foldl (\<lambda>df (col, val). set_column df col (str_cell val)) payload (zip P k)"
      using assms(6) by (intro partition_parts) simp
    also have "\<dots> = \<lparr>columns = columns payload @ map fst (zip P k),
              rows = map (\<lambda>r. r @ map (\<lambda>(col, val). StrV (str_cell val)) (zip P k)) (rows payload)\<rparr>"
      using assms(3,4) by (intro set_columns_fresh) (simp_all only: f)
    finally show ?thesis by (simp only: f)
  qed
  have v: "map (\<lambda>(col, val). StrV (str_cell val)) (zip P k) = map (\<lambda>v. StrV (str_cell v)) k"
    using assms(2) by (induction P k rule: list_induct2') auto
  have d: "?step df ''data.parquet'' = df" for df by simp
  show ?thesis
    unfolding add_partition_columns_def parts foldl_append b m v
    by (simp only: foldl.simps d)
qed

subsection \<open>The partitioned read\<close>

lemma read_partitions_run_aux:
  assumes "list_all2 (\<lambda>b t. \<exists>blob_data. map_of bs0 b = Some blob_data
                              \<and> pd_read_parquet env ''pyarrow'' blob_data = Inr t) bs ts"
    and "blobs w = bs0"
  shows "read_partitions env bs dfs w
         = (Inr (dfs @ map (\<lambda>(b, t). add_partition_columns b t) (zip bs ts)),
            w\<lparr>calls := calls w @ map Download bs\<rparr>)"
  using assms
proof (induction bs ts arbitrary: dfs w rule: list_all2_induct)
  case Nil
  then show ?case by simp
next
  case (Cons b bs t ts)
  let ?w1 = "w\<lparr>calls := calls w @ [Download b]\<rparr>"
  obtain blob_data where bd: "map_of (blobs w) b = Some blob_data"
      "pd_read_parquet env ''pyarrow'' blob_data = Inr t"
    using Cons.hyps(1) Cons.prems by blast
  have r: "read_parquet env b ''pyarrow'' w = (Inr t, ?w1)"
    by (simp add: read_parquet_def download_blob_def bd)
  have "blobs ?w1 = bs0" using Cons.prems by simp
  from Cons.IH[OF this] show ?case by (simp add: r)
qed

lemma read_parquet_partitioned_run:
  assumes "parquet_blobs = filter (\<lambda>b. endswith b ''.parquet'')
             (filter (\<lambda>b. startswith b (rstrip CHR ''/'' base)) (map fst (blobs w)))"
    and "parquet_blobs \<noteq> []"
    and "list_all2 (\<lambda>b t. \<exists>blob_data. map_of (blobs w) b = Some blob_data
                              \<and> pd_read_parquet env ''pyarrow'' blob_data = Inr t) parquet_blobs ts"
  shows "read_parquet_partitioned env base None w
         = (pd_concat (map (\<lambda>(b, t). add_partition_columns b t) (zip parquet_blobs ts)),
            w\<lparr>calls := calls w @ ListBlobs (rstrip CHR ''/'' base) # map Download parquet_blobs\<rparr>)"
proof -
  let ?w1 = "w\<lparr>calls := calls w @ [ListBlobs (rstrip CHR ''/'' base)]\<rparr>"
  have "blobs ?w1 = blobs w" by simp
  from read_partitions_run_aux[OF assms(3) this, of "[]"] show ?thesis
    using assms(1,2) by (simp add: read_parquet_partitioned_def list_blobs_def search_prefix_def)
qed

lemma rstrip_prefix: "startswith (base @ s) (rstrip c base)"
proof -
  have "base = rstrip c base @ rev (takeWhile (\<lambda>x. x = c) (rev base))"
    unfolding rstrip_def by (metis rev_append rev_rev_ident takeWhile_dropWhile_id)
  then obtain t where "base = rstrip c base @ t" ..
  then have "base @ s = rstrip c base @ (t @ s)" by simp
  then show ?thesis using startswith_append by metis
qed

subsection \<open>Reading back a partitioned write\<close>

lemma length_stripped:
  "length r = length cols \<Longrightarrow>
   length (filter (\<lambda>(c, v). Q c) (zip cols r)) = length (filter Q cols)"
  by (induction cols r rule: list_induct2') auto

lemma stripped_row:
  assumes "distinct cols" "length r = length cols"
  shows "map snd (filter (\<lambda>(c, v). c \<notin> set P) (zip cols r))
         = map (cell_at cols r) (filter (\<lambda>c. c \<notin> set P) cols)"
proof -
  let ?rest = "filter (\<lambda>c. c \<notin> set P) cols"
  let ?sr = "map snd (filter (\<lambda>(c, v). c \<notin> set P) (zip cols r))"
  have l: "length ?sr = length ?rest"
    using length_stripped[OF assms(2), of "\<lambda>c. c \<notin> set P"] by simp
  have "distinct ?rest" using assms(1) by simp
  then have "map (cell_at ?rest ?sr) ?rest = ?sr" using l by (rule cell_at_self)
  moreover have "map (cell_at ?rest ?sr) ?rest = map (cell_at cols r) ?rest"
    by (rule map_cong) (auto simp: cell_at_stripped[OF assms(2)])
  ultimately show ?thesis by simp
qed

lemma partition_blob_name_endswith: "endswith (partition_blob_name base P k) ''.parquet''"
  using ensure_extension_endswith[of "partition_blob_name base P k"]
  by (simp add: partition_blob_name_ext)

lemma partition_blob_name_startswith:
  "startswith (partition_blob_name base P k) (rstrip CHR ''/'' base)"
  unfolding partition_blob_name_def by (rule rstrip_prefix)

lemma map2_same:
  "map (\<lambda>(b, t). f b t) (zip (map g xs) (map h xs)) = map (\<lambda>x. f (g x) (h x)) xs"
  by (induction xs) auto

lemma partitioned_read_back:
  fixes overwrite :: bool
  assumes wf: "wf_table df" and P: "P \<noteq> []" "distinct P" "set P \<subseteq> set (columns df)"
    and nn: "\<forall>r \<in> set (rows df). NullV \<notin> set (key_of df P r)"
    and base: "CHR ''='' \<notin> set base"
    and names: "\<forall>col \<in> set P. CHR ''/'' \<notin> set col \<and> CHR ''='' \<notin> set col"
    and vals: "\<forall>r \<in> set (rows df). \<forall>col \<in> set P.
                 CHR ''/'' \<notin> set (str_cell (cell_at (columns df) r col))"
    and inj: "inj_on (partition_blob_name base P) (set (group_keys df P))"
    and fresh: "\<forall>b \<in> set (map fst (blobs w)). \<not> startswith b (rstrip CHR ''/'' base)"
    and codec: "\<forall>k \<in> set (group_keys df P).
                  pd_read_parquet env ''pyarrow''
                    (df_to_parquet env e c (without_columns (group_frame df P k) P))
                  = Inr (without_columns (group_frame df P k) P)"
  defines "rest \<equiv> filter (\<lambda>col. col \<notin> set P) (columns df)"
  defines "row_read \<equiv> \<lambda>r. map (cell_at (columns df) r) rest
                              @ map (\<lambda>col. StrV (str_cell (cell_at (columns df) r col))) P"
  defines "w' \<equiv> snd (write_parquet_partitioned env df base P c overwrite e w)"
  shows "\<forall>k \<in> set (group_keys df P).
           fst (read_parquet env (partition_blob_name base P k) ''pyarrow'' w')
             = Inr (without_columns (group_frame df P k) P)
           \<and> add_partition_columns (partition_blob_name base P k)
               (without_columns (group_frame df P k) P)
             = \<lparr>columns = rest @ P, rows = map row_read (rows (group_frame df P k))\<rparr>"
    and "rows df \<noteq> [] \<Longrightarrow>
         fst (read_parquet_partitioned env base None w')
         = Inr \<lparr>columns = rest @ P,
                rows = concat (map (\<lambda>k. map row_read (rows (group_frame df P k)))
                                 (group_keys df P))\<rparr>"
proof -
  let ?keys = "group_keys df P"
  let ?path = "partition_blob_name base P"
  let ?payload = "\<lambda>k. without_columns (group_frame df P k) P"
  let ?F = "\<lambda>k. \<lparr>columns = rest @ P, rows = map row_read (rows (group_frame df P k))\<rparr>"
  have dk: "distinct ?keys" by (simp add: group_keys_def)
  have dp: "distinct (map ?path ?keys)" using dk inj by (simp add: distinct_map)
  have none: "map_of (blobs w) (?path k) = None" for k
  proof -
    have "?path k \<notin> fst ` set (blobs w)"
      using fresh partition_blob_name_startswith[of base P k] by fastforce
    then show ?thesis by (simp add: map_of_eq_None_iff)
  qed
  have pre: "overwrite \<or> (distinct (map ?path ?keys)
                \<and> (\<forall>k \<in> set ?keys. map_of (blobs w) (?path k) = None))"
    using dp none by simp
  note run = write_parquet_partitioned_run[OF P(1,3) pre, where env = env and c = c and e = e]
  have stored: "map_of (blobs w') (?path k) = Some (df_to_parquet env e c (?payload k))"
    if "k \<in> set ?keys" for k
    using map_of_foldl_update[OF inj that,
        where payload = "\<lambda>k. df_to_parquet env e c (?payload k)" and ?bs0.0 = "blobs w"]
    by (simp add: w'_def run)
  have rd: "fst (read_parquet env (?path k) ''pyarrow'' w') = Inr (?payload k)"
    if "k \<in> set ?keys" for k
    using stored[OF that] codec that by (simp add: read_parquet_def download_blob_def)
  have aug: "add_partition_columns (?path k) (?payload k) = ?F k" if k: "k \<in> set ?keys" for k
  proof -
    have l: "length k = length P" using k by (rule group_keys_length)
    have c0: "set P \<inter> set (columns (?payload k)) = {}"
      by (auto simp: without_columns_def)
    have v: "\<forall>v \<in> set k. CHR ''/'' \<notin> set (str_cell v)"
    proof -
      obtain r where r: "r \<in> set (rows df)" "k = key_of df P r"
        using k by (auto simp: set_group_keys keyed_rows_def)
      then show ?thesis using vals by (auto simp: key_of_def)
    qed
    have rows_eq: "r @ map (\<lambda>v. StrV (str_cell v)) k = row_read r'"
      if "r' \<in> set (rows (group_frame df P k))"
         "r = map snd (filter (\<lambda>(c, v). c \<notin> set P) (zip (columns df) r'))" for r r'
    proof -
      have m: "r' \<in> set (rows df)" "key_of df P r' = k"
        using that(1) by (auto simp: group_frame_def keyed_rows_def)
      then have "distinct (columns df)" "length r' = length (columns df)"
        using wf by (auto simp: wf_table_def list_all_iff)
      then have "r = map (cell_at (columns df) r') rest"
        unfolding that(2) rest_def by (rule stripped_row)
      moreover have "map (\<lambda>v. StrV (str_cell v)) k
                     = map (\<lambda>col. StrV (str_cell (cell_at (columns df) r' col))) P"
        using m(2) by (auto simp: key_of_def)
      ultimately show ?thesis by (simp add: row_read_def)
    qed
    have "add_partition_columns (?path k) (?payload k)
          = \<lparr>columns = columns (?payload k) @ P,
             rows = map (\<lambda>r. r @ map (\<lambda>v. StrV (str_cell v)) k) (rows (?payload k))\<rparr>"
      by (rule add_partition_columns_path[OF P(1) l P(2) c0 base names v])
    also have "\<dots> = ?F k"
      using rows_eq by (simp add: without_columns_def rest_def group_frame_def comp_def)
    finally show ?thesis .
  qed
  show "\<forall>k \<in> set ?keys.
           fst (read_parquet env (?path k) ''pyarrow'' w') = Inr (?payload k)
           \<and> add_partition_columns (?path k) (?payload k) = ?F k"
    using rd aug by simp
  show "fst (read_parquet_partitioned env base None w')
         = Inr \<lparr>columns = rest @ P,
                rows = concat (map (\<lambda>k. map row_read (rows (group_frame df P k))) ?keys)\<rparr>"
    if ne: "rows df \<noteq> []"
  proof -
    have fr: "\<forall>k \<in> set ?keys. ?path k \<notin> set (map fst (blobs w))"
      using fresh partition_blob_name_startswith[of base P] by fastforce
    have keys: "map fst (blobs w') = map fst (blobs w) @ map ?path ?keys"
      using keys_foldl_update[OF dp fr] by (simp add: w'_def run)
    have f1: "filter (\<lambda>b. startswith b (rstrip CHR ''/'' base)) (map fst (blobs w)) = []"
      using fresh by (simp add: filter_empty_conv)
    have f2: "filter (\<lambda>b. startswith b (rstrip CHR ''/'' base)) (map ?path ?keys) = map ?path ?keys"
      by (simp add: filter_map comp_def partition_blob_name_startswith)
    have f3: "filter (\<lambda>b. endswith b ''.parquet'') (map ?path ?keys) = map ?path ?keys"
      by (simp add: filter_map comp_def partition_blob_name_endswith)
    have listing: "map ?path ?keys = filter (\<lambda>b. endswith b ''.parquet'')
             (filter (\<lambda>b. startswith b (rstrip CHR ''/'' base)) (map fst (blobs w')))"
      by (simp only: keys filter_append f1 f2 f3 append_Nil)
    have kne: "?keys \<noteq> []"
    proof -
      obtain r where "r \<in> set (rows df)" using ne by (cases "rows df") auto
      then have "key_of df P r \<in> set ?keys"
        using nn by (auto simp: set_group_keys keyed_rows_def)
      then show ?thesis by auto
    qed
    then have nonempty: "map ?path ?keys \<noteq> []" by simp
    have dec: "list_all2 (\<lambda>b t. \<exists>blob_data. map_of (blobs w') b = Some blob_data
                              \<and> pd_read_parquet env ''pyarrow'' blob_data = Inr t)
                 (map ?path ?keys) (map ?payload ?keys)"
      unfolding list_all2_map1 list_all2_map2 list_all2_same
      using stored codec by simp
    have z: "map (\<lambda>(b, t). add_partition_columns b t) (zip (map ?path ?keys) (map ?payload ?keys))
             = map ?F ?keys"
    proof -
      have "map (\<lambda>(b, t). add_partition_columns b t) (zip (map ?path ?keys) (map ?payload ?keys))
            = map (\<lambda>k. add_partition_columns (?path k) (?payload k)) ?keys"
        by (rule map2_same)
      also have "\<dots> = map ?F ?keys" using aug by simp
      finally show ?thesis .
    qed
    have drest: "distinct (rest @ P)" using wf P(2) by (auto simp: rest_def wf_table_def)
    have wfF: "\<forall>t \<in> set (map ?F ?keys). columns t = rest @ P \<and> wf_table t"
      by (auto simp: wf_table_def list_all_iff row_read_def drest simp del: distinct_append)
    have "pd_concat (map ?F ?keys) = Inr \<lparr>columns = rest @ P, rows = concat (map rows (map ?F ?keys))\<rparr>"
      using kne drest wfF by (intro pd_concat_same) simp_all
    then have pc: "pd_concat (map ?F ?keys)
        = Inr \<lparr>columns = rest @ P,
               rows = concat (map (\<lambda>k. map row_read (rows (group_frame df P k))) ?keys)\<rparr>"
      by (simp add: comp_def)
    show ?thesis
      by (simp add: read_parquet_partitioned_run[OF listing nonempty dec] z pc)
  qed
qed

lemma mset_concat_map:
  "mset (concat (map (\<lambda>k. map f (g k)) ks)) = image_mset f (mset (concat (map g ks)))"
  by (induction ks) auto

lemma payload_rows:
  assumes "wf_table df"
  shows "rows (without_columns (group_frame df P k) P)
         = map (\<lambda>r. map (cell_at (columns df) r) (filter (\<lambda>col. col \<notin> set P) (columns df)))
             (rows (group_frame df P k))"
proof -
  have "map snd (filter (\<lambda>(c, v). c \<notin> set P) (zip (columns df) r))
        = map (cell_at (columns df) r) (filter (\<lambda>col. col \<notin> set P) (columns df))"
    if "r \<in> set (rows (group_frame df P k))" for r
  proof -
    have "r \<in> set (rows df)" using that by (auto simp: group_frame_def keyed_rows_def)
    then have "distinct (columns df)" "length r = length (columns df)"
      using assms by (auto simp: wf_table_def list_all_iff)
    then show ?thesis by (rule stripped_row)
  qed
  then show ?thesis by (simp add: without_columns_def group_frame_def)
qed


text \<open>
  Claim C3, as the code has it. Let the table have distinct column names and \<open>P\<close> be
  a non-empty list of distinct columns of it, not all of them; let no row have a missing
  value in a column of \<open>P\<close>; let the base path hold no \<^verbatim>\<open>=\<close>, the names in \<open>P\<close> hold
  neither \<^verbatim>\<open>/\<close> nor \<^verbatim>\<open>=\<close>, and the rendered partition values hold no \<^verbatim>\<open>/\<close>; let
  distinct groups render to distinct paths, no other blob start with the base path, and
  the codec read each written payload back as it was written. Then the partitioned
  write makes one upload per group; the groups have distinct keys, every row of the
  table lies in the group of its own key and in no other, and the groups together hold
  the rows of the table. Afterwards the blob at a group's path reads back as the rows
  of that group without their partition cells. The rows of all blobs, each re-augmented
  from its blob's path (the partition values as strings, in columns added after the
  payload columns), are as a multiset the rows of the table with their partition cells
  rendered as strings and moved behind the other cells; for a table of at least one row
  this is what \<open>read_parquet_partitioned\<close> returns.
\<close>

theorem partition_exhaustive_disjoint:
  fixes overwrite :: bool
  assumes "wf_table df" "P \<noteq> []" "distinct P" "set P \<subseteq> set (columns df)"
    and "\<not> set (columns df) \<subseteq> set P"
    and "\<forall>r \<in> set (rows df). NullV \<notin> set (key_of df P r)"
    and "CHR ''='' \<notin> set base"
    and "\<forall>col \<in> set P. CHR ''/'' \<notin> set col \<and> CHR ''='' \<notin> set col"
    and "\<forall>r \<in> set (rows df). \<forall>col \<in> set P.
           CHR ''/'' \<notin> set (str_cell (cell_at (columns df) r col))"
    and "inj_on (partition_blob_name base P) (set (group_keys df P))"
    and "\<forall>b \<in> set (map fst (blobs w)). \<not> startswith b (rstrip CHR ''/'' base)"
    and "\<forall>k \<in> set (group_keys df P).
           pd_read_parquet env ''pyarrow''
             (df_to_parquet env e c (without_columns (group_frame df P k) P))
           = Inr (without_columns (group_frame df P k) P)"
  shows
  "calls (snd (write_parquet_partitioned env df base P c overwrite e w))
     = calls w @ map (\<lambda>k. Upload (partition_blob_name base P k)
                           (df_to_parquet env e c (without_columns (group_frame df P k) P))
                           overwrite) (group_keys df P)
   \<and> distinct (group_keys df P)
   \<and> (\<forall>k \<in> set (group_keys df P). \<forall>r \<in> set (rows (group_frame df P k)). key_of df P r = k)
   \<and> (\<forall>r \<in> set (rows df). key_of df P r \<in> set (group_keys df P))
   \<and> mset (concat (map (\<lambda>k. rows (group_frame df P k)) (group_keys df P))) = mset (rows df)
   \<and> (\<forall>k \<in> set (group_keys df P).
         fst (read_parquet env (partition_blob_name base P k) ''pyarrow''
                (snd (write_parquet_partitioned env df base P c overwrite e w)))
           = Inr (without_columns (group_frame df P k) P)
         \<and> rows (without_columns (group_frame df P k) P)
           = map (\<lambda>r. map (cell_at (columns df) r)
                         (filter (\<lambda>col. col \<notin> set P) (columns df)))
               (rows (group_frame df P k)))
   \<and> mset (concat (map (\<lambda>k. rows (add_partition_columns (partition_blob_name base P k)
                                      (without_columns (group_frame df P k) P)))
                       (group_keys df P)))
     = image_mset (\<lambda>r. map (cell_at (columns df) r) (filter (\<lambda>col. col \<notin> set P) (columns df))
                        @ map (\<lambda>col. StrV (str_cell (cell_at (columns df) r col))) P)
         (mset (rows df))
   \<and> (rows df \<noteq> [] \<longrightarrow>
        (\<exists>R. fst (read_parquet_partitioned env base None
                    (snd (write_parquet_partitioned env df base P c overwrite e w))) = Inr R
             \<and> columns R = filter (\<lambda>col. col \<notin> set P) (columns df) @ P
             \<and> mset (rows R)
               = image_mset (\<lambda>r. map (cell_at (columns df) r)
                                    (filter (\<lambda>col. col \<notin> set P) (columns df))
                                  @ map (\<lambda>col. StrV (str_cell (cell_at (columns df) r col))) P)
                   (mset (rows df))))"
proof -
  let ?keys = "group_keys df P"
  let ?path = "partition_blob_name base P"
  let ?payload = "\<lambda>k. without_columns (group_frame df P k) P"
  let ?rest = "filter (\<lambda>col. col \<notin> set P) (columns df)"
  let ?row = "\<lambda>r. map (cell_at (columns df) r) ?rest
                   @ map (\<lambda>col. StrV (str_cell (cell_at (columns df) r col))) P"
  let ?w' = "snd (write_parquet_partitioned env df base P c overwrite e w)"
  note rb = partitioned_read_back[OF assms(1,2,3,4,6,7,8,9,10,11,12), where overwrite = overwrite]
  have dk: "distinct ?keys" by (simp add: group_keys_def)
  have dp: "distinct (map ?path ?keys)" using dk assms(10) by (simp add: distinct_map)
  have none: "\<forall>k \<in> set ?keys. map_of (blobs w) (?path k) = None"
  proof
    fix k
    have "?path k \<notin> fst ` set (blobs w)"
      using assms(11) partition_blob_name_startswith[of base P k] by fastforce
    then show "map_of (blobs w) (?path k) = None" by (simp add: map_of_eq_None_iff)
  qed
  have pre: "overwrite \<or> (distinct (map ?path ?keys)
                \<and> (\<forall>k \<in> set ?keys. map_of (blobs w) (?path k) = None))"
    using dp none by simp
  note run = write_parquet_partitioned_run[OF assms(2,4) pre, where env = env and c = c and e = e]
  have 1: "calls ?w' = calls w @ map (\<lambda>k. Upload (?path k) (df_to_parquet env e c (?payload k))
                                         overwrite) ?keys"
    by (simp add: run)
  have all: "keyed_rows df P = rows df" using assms(6) by (rule keyed_rows_all)
  have 3: "\<forall>k \<in> set ?keys. \<forall>r \<in> set (rows (group_frame df P k)). key_of df P r = k"
    by (simp add: group_frame_def)
  have 4: "\<forall>r \<in> set (rows df). key_of df P r \<in> set ?keys"
    by (simp add: set_group_keys all)
  have 5: "mset (concat (map (\<lambda>k. rows (group_frame df P k)) ?keys)) = mset (rows df)"
    using mset_group_rows[of df P] by (simp add: all)
  have 6: "\<forall>k \<in> set ?keys.
         fst (read_parquet env (?path k) ''pyarrow'' ?w') = Inr (?payload k)
         \<and> rows (?payload k) = map (\<lambda>r. map (cell_at (columns df) r) ?rest)
                                  (rows (group_frame df P k))"
    using rb(1) payload_rows[OF assms(1)] by simp
  have "concat (map (\<lambda>k. rows (add_partition_columns (?path k) (?payload k))) ?keys)
        = concat (map (\<lambda>k. map ?row (rows (group_frame df P k))) ?keys)"
    using rb(1) by (intro arg_cong[where f = concat] map_cong) auto
  then have 7: "mset (concat (map (\<lambda>k. rows (add_partition_columns (?path k) (?payload k))) ?keys))
        = image_mset ?row (mset (rows df))"
    by (simp only: mset_concat_map 5)
  have 8: "\<exists>R. fst (read_parquet_partitioned env base None ?w') = Inr R
             \<and> columns R = ?rest @ P \<and> mset (rows R) = image_mset ?row (mset (rows df))"
    if "rows df \<noteq> []"
  proof -
    have "mset (concat (map (\<lambda>k. map ?row (rows (group_frame df P k))) ?keys))
          = image_mset ?row (mset (rows df))"
      by (simp only: mset_concat_map 5)
    then show ?thesis using rb(2)[OF that] by simp
  qed
  show ?thesis using 1 dk 3 4 5 6 7 8 by blast
qed


theorem partition_exhaustive_disjoint_witness:
  "wf_table T3 \<and> [''year''] \<noteq> [] \<and> distinct [''year''] \<and> set [''year''] \<subseteq> set (columns T3)
   \<and> \<not> set (columns T3) \<subseteq> set [''year'']
   \<and> list_all (\<lambda>r. NullV \<notin> set (key_of T3 [''year''] r)) (rows T3)
   \<and> CHR ''='' \<notin> set ''base''
   \<and> list_all (\<lambda>col. CHR ''/'' \<notin> set col \<and> CHR ''='' \<notin> set col) [''year'']
   \<and> list_all (\<lambda>r. list_all (\<lambda>col. CHR ''/'' \<notin> set (str_cell (cell_at (columns T3) r col)))
                      [''year'']) (rows T3)
   \<and> group_keys T3 [''year''] = [[IntV 2023], [IntV 2024]]
   \<and> inj_on (partition_blob_name ''base'' [''year'']) (set (group_keys T3 [''year'']))
   \<and> rows T3 \<noteq> []
   \<and> (\<exists>R. fst (read_parquet_partitioned plain_env ''base'' None
                 (snd (write_parquet_partitioned plain_env T3 ''base'' [''year''] ''snappy'' True
                         ''pyarrow'' empty_world))) = Inr R
          \<and> columns R = [''month'', ''v'', ''year'']
          \<and> mset (rows R)
            = {#[IntV 1, IntV 30, StrV ''2024''], [IntV 1, IntV 10, StrV ''2023''],
                [IntV 2, IntV 20, StrV ''2023'']#})"
proof -
  have a1: "wf_table T3" by (simp add: T3_def wf_table_def)
  have a2: "[''year''] \<noteq> []" by simp
  have a3: "distinct [''year'']" by simp
  have a4: "set [''year''] \<subseteq> set (columns T3)" by (simp add: T3_def)
  have a5: "\<not> set (columns T3) \<subseteq> set [''year'']" by (simp add: T3_def)
  have a6: "list_all (\<lambda>r. NullV \<notin> set (key_of T3 [''year''] r)) (rows T3)"
    by (simp add: T3_def key_of_def cell_at_def)
  have a7: "CHR ''='' \<notin> set ''base''" by simp
  have a8: "list_all (\<lambda>col. CHR ''/'' \<notin> set col \<and> CHR ''='' \<notin> set col) [''year'']" by simp
  have a9: "list_all (\<lambda>r. list_all (\<lambda>col. CHR ''/'' \<notin> set (str_cell (cell_at (columns T3) r col)))
                      [''year'']) (rows T3)"
    by code_simp
  have g: "group_keys T3 [''year''] = [[IntV 2023], [IntV 2024]]"
    by code_simp
  have n: "partition_blob_name ''base'' [''year''] [IntV 2023] = ''base/year=2023/data.parquet''"
    "partition_blob_name ''base'' [''year''] [IntV 2024] = ''base/year=2024/data.parquet''"
    by code_simp+
  have a10: "inj_on (partition_blob_name ''base'' [''year'']) (set (group_keys T3 [''year'']))"
    by (simp add: g n)
  have a11: "\<forall>b \<in> set (map fst (blobs empty_world)). \<not> startswith b (rstrip CHR ''/'' ''base'')"
    by (simp add: empty_world_def)
  have a12: "\<forall>k \<in> set (group_keys T3 [''year'']).
           pd_read_parquet plain_env ''pyarrow''
             (df_to_parquet plain_env ''pyarrow'' ''snappy''
                (without_columns (group_frame T3 [''year''] k) [''year'']))
           = Inr (without_columns (group_frame T3 [''year''] k) [''year''])"
    by (simp add: plain_env_def)
  have ne: "rows T3 \<noteq> []" by (simp add: T3_def)
  have c: "filter (\<lambda>col. col \<notin> set [''year'']) (columns T3) = [''month'', ''v'']"
    by (simp add: T3_def)
  have m: "image_mset (\<lambda>r. map (cell_at (columns T3) r) [''month'', ''v'']
                           @ map (\<lambda>col. StrV (str_cell (cell_at (columns T3) r col))) [''year''])
             (mset (rows T3))
           = {#[IntV 1, IntV 30, StrV ''2024''], [IntV 1, IntV 10, StrV ''2023''],
                [IntV 2, IntV 20, StrV ''2023'']#}"
    by code_simp
  from partition_exhaustive_disjoint[OF a1 a2 a3 a4 a5 a6[unfolded list_all_iff] a7
      a8[unfolded list_all_iff] a9[unfolded list_all_iff] a10 a11 a12,
      where overwrite = True]
    ne
  have "\<exists>R. fst (read_parquet_partitioned plain_env ''base'' None
                 (snd (write_parquet_partitioned plain_env T3 ''base'' [''year''] ''snappy'' True
                         ''pyarrow'' empty_world))) = Inr R
          \<and> columns R = [''month'', ''v''] @ [''year'']
          \<and> mset (rows R)
            = {#[IntV 1, IntV 30, StrV ''2024''], [IntV 1, IntV 10, StrV ''2023''],
                [IntV 2, IntV 20, StrV ''2023'']#}"
    unfolding c m by blast
  then show ?thesis
    using a1 a2 a3 a4 a5 a6 a7 a8 a9 g a10 ne by simp
qed


text \<open>
  The claim as stated fails in each of these ways. A row without a value in the
  partition column reaches no blob (\<open>T_null\<close>). An empty list of partition columns
  raises \<open>ValueError\<close>. The keys \<open>1\<close> and \<open>'1'\<close> render to one path, and the second
  upload replaces the first (\<open>T_mix\<close>): a row is gone from the store. The path carries
  the partition values as strings, so the rows read back are not the rows written
  (\<open>T3\<close>: the year comes back as \<open>'2023'\<close>, in the last column). With every column a
  partition column the payload has no column, and a codec that stores no row of such
  a frame loses every row (\<open>T_year\<close>). A partition value holding \<^verbatim>\<open>/\<close> comes back cut
  short (\<open>T_slash\<close>), and a base path holding \<^verbatim>\<open>=\<close> comes back as a column.
\<close>

theorem partition_round_trip_counterexample:
  "write_parquet_partitioned plain_env T_null ''base'' [''year''] ''snappy'' True ''pyarrow''
     empty_world
   = (Inr [], empty_world)
   \<and> write_parquet_partitioned plain_env T3 ''base'' [] ''snappy'' True ''pyarrow'' empty_world
   = (Inl (ValueError ''No group keys passed!''), empty_world)
   \<and> blobs (snd (write_parquet_partitioned plain_env T_mix ''base'' [''k''] ''snappy'' True
                    ''pyarrow'' empty_world))
   = [(''base/k=1/data.parquet'', ''pyarrow'', ''snappy'',
       \<lparr>columns = [''v''], rows = [[IntV 20]]\<rparr>)]
   \<and> fst (read_parquet_partitioned plain_env ''base'' None
            (snd (write_parquet_partitioned plain_env T3 ''base'' [''year''] ''snappy'' True
                    ''pyarrow'' empty_world)))
   = Inr \<lparr>columns = [''month'', ''v'', ''year''],
          rows = [[IntV 1, IntV 10, StrV ''2023''], [IntV 2, IntV 20, StrV ''2023''],
                  [IntV 1, IntV 30, StrV ''2024'']]\<rparr>
   \<and> fst (read_parquet_partitioned index_free_env ''base'' None
            (snd (write_parquet_partitioned index_free_env T_year ''base'' [''year''] ''snappy''
                    True ''pyarrow'' empty_world)))
   = Inr \<lparr>columns = [''year''], rows = []\<rparr>
   \<and> fst (read_parquet_partitioned plain_env ''base'' None
            (snd (write_parquet_partitioned plain_env T_slash ''base'' [''k''] ''snappy'' True
                    ''pyarrow'' empty_world)))
   = Inr \<lparr>columns = [''v'', ''k''], rows = [[IntV 1, StrV ''a'']]\<rparr>
   \<and> fst (read_parquet_partitioned plain_env ''x=1'' None
            (snd (write_parquet_partitioned plain_env T3 ''x=1'' [''year''] ''snappy'' True
                    ''pyarrow'' empty_world)))
   = Inr \<lparr>columns = [''month'', ''v'', ''x'', ''year''],
          rows = [[IntV 1, IntV 10, StrV ''1'', StrV ''2023''],
                  [IntV 2, IntV 20, StrV ''1'', StrV ''2023''],
                  [IntV 1, IntV 30, StrV ''1'', StrV ''2024'']]\<rparr>"
proof -
  have 1: "write_parquet_partitioned plain_env T_null ''base'' [''year''] ''snappy'' True ''pyarrow''
     empty_world = (Inr [], empty_world)"
    by code_simp
  have 2: "write_parquet_partitioned plain_env T3 ''base'' [] ''snappy'' True ''pyarrow'' empty_world
   = (Inl (ValueError ''No group keys passed!''), empty_world)"
    by code_simp
  have 3: "blobs (snd (write_parquet_partitioned plain_env T_mix ''base'' [''k''] ''snappy'' True
                    ''pyarrow'' empty_world))
   = [(''base/k=1/data.parquet'', ''pyarrow'', ''snappy'',
       \<lparr>columns = [''v''], rows = [[IntV 20]]\<rparr>)]"
    by code_simp
  have 4: "fst (read_parquet_partitioned plain_env ''base'' None
            (snd (write_parquet_partitioned plain_env T3 ''base'' [''year''] ''snappy'' True
                    ''pyarrow'' empty_world)))
   = Inr \<lparr>columns = [''month'', ''v'', ''year''],
          rows = [[IntV 1, IntV 10, StrV ''2023''], [IntV 2, IntV 20, StrV ''2023''],
                  [IntV 1, IntV 30, StrV ''2024'']]\<rparr>"
    by code_simp
  have 5: "fst (read_parquet_partitioned index_free_env ''base'' None
            (snd (write_parquet_partitioned index_free_env T_year ''base'' [''year''] ''snappy''
                    True ''pyarrow'' empty_world)))
   = Inr \<lparr>columns = [''year''], rows = []\<rparr>"
    by code_simp
  have 6: "fst (read_parquet_partitioned plain_env ''base'' None
            (snd (write_parquet_partitioned plain_env T_slash ''base'' [''k''] ''snappy'' True
                    ''pyarrow'' empty_world)))
   = Inr \<lparr>columns = [''v'', ''k''], rows = [[IntV 1, StrV ''a'']]\<rparr>"
    by code_simp
  have 7: "fst (read_parquet_partitioned plain_env ''x=1'' None
            (snd (write_parquet_partitioned plain_env T3 ''x=1'' [''year''] ''snappy'' True
                    ''pyarrow'' empty_world)))
   = Inr \<lparr>columns = [''month'', ''v'', ''x'', ''year''],
          rows = [[IntV 1, IntV 10, StrV ''1'', StrV ''2023''],
                  [IntV 2, IntV 20, StrV ''1'', StrV ''2023''],
                  [IntV 1, IntV 30, StrV ''1'', StrV ''2024'']]\<rparr>"
    by code_simp
  show ?thesis using 1 2 3 4 5 6 7 by blast
qed

end
